theory Spec2Isabelle
  imports Complex_Main "HOL-Library.Multiset"
begin

section \<open>Monte-Carlo pricing of an Asian down-and-out barrier option\<close>

text \<open>
  The notebook \<^verbatim>\<open>cuda_processing_example\<close> defines one simulation kernel three times:
  \<^verbatim>\<open>cpu_barrier_option\<close> (serial), \<^verbatim>\<open>cpu_multicore_barrier_option\<close> (the outer loop is a
  \<^verbatim>\<open>prange\<close>) and \<^verbatim>\<open>numba_gpu_barrier_option\<close> (one CUDA thread per strided set of paths).

  Modelling decisions.
  \<^item> Numbers: the kernels compute on \<^verbatim>\<open>float32\<close>/\<^verbatim>\<open>float64\<close> values. They are embedded over
    the reals, so every statement below is about the exact arithmetic of the kernels.
    Rounding is not part of the model; over the reals the two ways in which the kernels
    write the update of the running average denote the same number, in floating point they
    need not.
  \<^item> Compiled code: the kernels run as numba compiles them. The \<^verbatim>\<open>@njit\<close> kernels raise
    \<^verbatim>\<open>ZeroDivisionError\<close> for the division by a zero step count; the \<^verbatim>\<open>@cuda.jit\<close> kernel
    raises nothing. No kernel raises for \<^verbatim>\<open>math.sqrt\<close> of a negative number (the result is a
    NaN) and no kernel checks an index against the bounds of an array.
  \<^item> Outcome of a run: \<open>None\<close> when the kernel returns, \<open>Some ZeroDivisionError\<close> when an
    \<^verbatim>\<open>@njit\<close> kernel raises it, and otherwise the reason for which the model stops:
    \<open>Some NotANumber\<close> when a path has to compute with a temporary that is not a real number,
    \<open>Some IndexError\<close> when an index is outside its array. In the last two cases the compiled
    kernel goes on, with a NaN or with whatever lies behind the array; about what it
    computes from there the model is silent, and the memory of the outcome is the memory
    at the point where the model stops.
  \<^item> Memory: the two arrays a kernel receives, \<^verbatim>\<open>d_s\<close> (output) and \<^verbatim>\<open>d_normals\<close> (draws),
    are two distinct arrays, as in the notebook's calls. An outcome carries the contents
    of both.
  \<^item> Parallelism: the iterations of \<^verbatim>\<open>prange\<close> and the threads of a CUDA grid are executed
    one after the other in an order given by a schedule, which is an argument of the model.
\<close>

subsection \<open>Primitives\<close>

datatype error = ZeroDivisionError | ValueError | IndexError | NotANumber

type_synonym mem = "real list \<times> real list"

text \<open>\<^verbatim>\<open>x / n\<close> with a float \<open>x\<close> and an integer \<open>n\<close>, as an \<^verbatim>\<open>@njit\<close> kernel computes it: a
  divisor of zero raises. (In the CUDA kernel the quotient is then an infinity or a NaN.)\<close>

definition truediv :: "real \<Rightarrow> int \<Rightarrow> error + real" where
  "truediv x n = (if n = 0 then Inl ZeroDivisionError else Inr (x / real_of_int n))"

text \<open>\<^verbatim>\<open>math.sqrt(x)\<close>: the square root, and for a negative argument a NaN, which no kernel
  raises for; \<open>Inl NotANumber\<close> stands for that NaN.\<close>

definition math_sqrt :: "real \<Rightarrow> error + real" where
  "math_sqrt x = (if x < 0 then Inl NotANumber else Inr (sqrt x))"

text \<open>\<^verbatim>\<open>xs[k]\<close> and \<^verbatim>\<open>xs[k] = v\<close> as total functions: a negative index counts from the end, and
  \<open>Inl IndexError\<close> stands for an index outside the array. Python raises there; the compiled
  kernels do not check and read or write behind the array, which the model does not
  follow.\<close>

definition getitem :: "real list \<Rightarrow> int \<Rightarrow> error + real" where
  "getitem xs k =
     (let l = int (length xs); j = (if k < 0 then l + k else k)
      in if 0 \<le> j \<and> j < l then Inr (xs ! nat j) else Inl IndexError)"

definition setitem :: "real list \<Rightarrow> int \<Rightarrow> real \<Rightarrow> error + real list" where
  "setitem xs k v =
     (let l = int (length xs); j = (if k < 0 then l + k else k)
      in if 0 \<le> j \<and> j < l then Inr (xs[nat j := v]) else Inl IndexError)"

text \<open>\<^verbatim>\<open>range(n)\<close> and \<^verbatim>\<open>range(start, stop, step)\<close> for a start and a step that are not
  negative; the length of the latter is \<open>(stop - start - 1) // step + 1\<close> when
  \<open>start < stop\<close> and \<open>0\<close> otherwise. A step of zero, which Python refuses, does not occur
  in a launch: the stride of a thread is the number of threads of its grid.\<close>

definition range1 :: "int \<Rightarrow> nat list" where
  "range1 n = [0..<nat n]"

definition range3 :: "nat \<Rightarrow> int \<Rightarrow> nat \<Rightarrow> error + nat list" where
  "range3 start stop step =
     (if step = 0 then Inl ValueError
      else Inr (map (\<lambda>k. start + k * step) [0..<(nat stop - start + step - 1) div step]))"

subsection \<open>The per-path loop\<close>

text \<open>
  The three lines before the loops of every kernel:
  \<^verbatim>\<open>tmp1 = mu*T/N_STEPS; tmp2 = math.exp(-r*T); tmp3 = math.sqrt(T/N_STEPS)\<close>.
  \<open>prelude\<close> gives the three temporaries when all of them are real numbers, and otherwise
  the reason why they are not: \<open>ZeroDivisionError\<close> for a step count of zero (the \<^verbatim>\<open>@njit\<close>
  kernels raise it, in the CUDA kernel \<open>tmp1\<close> and \<open>tmp3\<close> are infinities or NaN),
  \<open>NotANumber\<close> for a negative \<open>T/N_STEPS\<close> (in every kernel \<open>tmp3\<close> is a NaN).
\<close>

definition prelude :: "real \<Rightarrow> real \<Rightarrow> real \<Rightarrow> int \<Rightarrow> error + real \<times> real \<times> real" where
  "prelude T mu r N_STEPS =
     (case truediv (mu * T) N_STEPS of
        Inl e \<Rightarrow> Inl e
      | Inr tmp1 \<Rightarrow>
          (let tmp2 = exp (- r * T) in
           case truediv T N_STEPS of
             Inl e \<Rightarrow> Inl e
           | Inr q \<Rightarrow>
               (case math_sqrt q of
                  Inl e \<Rightarrow> Inl e
                | Inr tmp3 \<Rightarrow> Inr (tmp1, tmp2, tmp3))))"

text \<open>
  The inner loop \<^verbatim>\<open>for n in range(N_STEPS)\<close> of the two CPU kernels, on the steps still to
  run and the pair \<open>(s_curr, running_average)\<close>:
  \<^verbatim>\<open>
  s_curr += tmp1 * s_curr + sigma*s_curr*tmp3*d_normals[i + n * N_PATHS]
  running_average = running_average + 1.0/(n + 1.0) * (s_curr - running_average)
  if running_average <= B: break
  \<close>
\<close>

fun cpu_steps ::
  "real \<Rightarrow> real \<Rightarrow> real \<Rightarrow> real \<Rightarrow> real list \<Rightarrow> int \<Rightarrow> nat \<Rightarrow> nat list \<Rightarrow> real \<times> real
     \<Rightarrow> error + real \<times> real" where
  "cpu_steps tmp1 tmp3 sigma B d_normals N_PATHS i [] (s_curr, running_average) =
     Inr (s_curr, running_average)"
| "cpu_steps tmp1 tmp3 sigma B d_normals N_PATHS i (n # ns) (s_curr, running_average) =
     (case getitem d_normals (int i + int n * N_PATHS) of
        Inl e \<Rightarrow> Inl e
      | Inr z \<Rightarrow>
          (let s_curr' = s_curr + (tmp1 * s_curr + sigma * s_curr * tmp3 * z);
               running_average' =
                 running_average + 1 / (real n + 1) * (s_curr' - running_average)
           in if running_average' \<le> B then Inr (s_curr', running_average')
              else cpu_steps tmp1 tmp3 sigma B d_normals N_PATHS i ns
                     (s_curr', running_average')))"

text \<open>
  The inner loop of the CUDA kernel; its average is updated by
  \<^verbatim>\<open>running_average += (s_curr - running_average) / (n + 1.0)\<close>.
\<close>

fun gpu_steps ::
  "real \<Rightarrow> real \<Rightarrow> real \<Rightarrow> real \<Rightarrow> real list \<Rightarrow> int \<Rightarrow> nat \<Rightarrow> nat list \<Rightarrow> real \<times> real
     \<Rightarrow> error + real \<times> real" where
  "gpu_steps tmp1 tmp3 sigma B d_normals N_PATHS i [] (s_curr, running_average) =
     Inr (s_curr, running_average)"
| "gpu_steps tmp1 tmp3 sigma B d_normals N_PATHS i (n # ns) (s_curr, running_average) =
     (case getitem d_normals (int i + int n * N_PATHS) of
        Inl e \<Rightarrow> Inl e
      | Inr z \<Rightarrow>
          (let s_curr' = s_curr + (tmp1 * s_curr + sigma * s_curr * tmp3 * z);
               running_average' = running_average + (s_curr' - running_average) / (real n + 1)
           in if running_average' \<le> B then Inr (s_curr', running_average')
              else gpu_steps tmp1 tmp3 sigma B d_normals N_PATHS i ns
                     (s_curr', running_average')))"

text \<open>
  The body of the outer loop for the path \<open>i\<close>: the inner loop from \<open>(S0, 0.0)\<close>, then
  \<^verbatim>\<open>payoff = running_average - K if running_average>K else 0\<close> and
  \<^verbatim>\<open>d_s[i] = tmp2 * payoff\<close>.
\<close>

definition cpu_path ::
  "real \<Rightarrow> real \<Rightarrow> real \<Rightarrow> real \<Rightarrow> real \<Rightarrow> real \<Rightarrow> real \<Rightarrow> int \<Rightarrow> int \<Rightarrow> nat \<Rightarrow> mem
     \<Rightarrow> error + mem" where
  "cpu_path tmp1 tmp2 tmp3 K B S0 sigma N_STEPS N_PATHS i m =
     (case m of (d_s, d_normals) \<Rightarrow>
        (case cpu_steps tmp1 tmp3 sigma B d_normals N_PATHS i (range1 N_STEPS) (S0, 0) of
           Inl e \<Rightarrow> Inl e
         | Inr (s_curr, running_average) \<Rightarrow>
             (let payoff = (if running_average > K then running_average - K else 0) in
              case setitem d_s (int i) (tmp2 * payoff) of
                Inl e \<Rightarrow> Inl e
              | Inr d_s' \<Rightarrow> Inr (d_s', d_normals))))"

definition gpu_path ::
  "real \<Rightarrow> real \<Rightarrow> real \<Rightarrow> real \<Rightarrow> real \<Rightarrow> real \<Rightarrow> real \<Rightarrow> int \<Rightarrow> int \<Rightarrow> nat \<Rightarrow> mem
     \<Rightarrow> error + mem" where
  "gpu_path tmp1 tmp2 tmp3 K B S0 sigma N_STEPS N_PATHS i m =
     (case m of (d_s, d_normals) \<Rightarrow>
        (case gpu_steps tmp1 tmp3 sigma B d_normals N_PATHS i (range1 N_STEPS) (S0, 0) of
           Inl e \<Rightarrow> Inl e
         | Inr (s_curr, running_average) \<Rightarrow>
             (let payoff = (if running_average > K then running_average - K else 0) in
              case setitem d_s (int i) (tmp2 * payoff) of
                Inl e \<Rightarrow> Inl e
              | Inr d_s' \<Rightarrow> Inr (d_s', d_normals))))"

text \<open>
  The body of the outer loop when \<open>tmp1\<close> or \<open>tmp3\<close> is not a real number. The two
  temporaries occur in the inner loop only. When that loop has no step
  (\<open>N_STEPS \<le> 0\<close>) they are not used: the running average keeps its initial value \<open>0.0\<close>
  and the body stores the discounted payoff of that. When the loop has a step, the first
  one computes a price that is not a real number and the model stops.
\<close>

definition nonreal_path :: "real \<Rightarrow> real \<Rightarrow> int \<Rightarrow> nat \<Rightarrow> mem \<Rightarrow> error + mem" where
  "nonreal_path tmp2 K N_STEPS i m =
     (case m of (d_s, d_normals) \<Rightarrow>
        (case range1 N_STEPS of
           [] \<Rightarrow>
             (let running_average = 0;
                  payoff = (if running_average > K then running_average - K else 0) in
              case setitem d_s (int i) (tmp2 * payoff) of
                Inl e \<Rightarrow> Inl e
              | Inr d_s' \<Rightarrow> Inr (d_s', d_normals))
         | n # ns \<Rightarrow> Inl NotANumber))"

subsection \<open>The kernels\<close>

text \<open>
  An outer loop \<^verbatim>\<open>for i in ...\<close> over path indices: the body runs on each index in turn;
  when the body of a path stops, the loop stops with the memory as the earlier paths
  wrote it.
\<close>

fun for_paths :: "(nat \<Rightarrow> mem \<Rightarrow> error + mem) \<Rightarrow> nat list \<Rightarrow> mem \<Rightarrow> error option \<times> mem" where
  "for_paths body [] m = (None, m)"
| "for_paths body (i # is) m =
     (case body i m of
        Inl e \<Rightarrow> (Some e, m)
      | Inr m' \<Rightarrow> for_paths body is m')"

definition cpu_barrier_option ::
  "real list \<Rightarrow> real \<Rightarrow> real \<Rightarrow> real \<Rightarrow> real \<Rightarrow> real \<Rightarrow> real \<Rightarrow> real \<Rightarrow> real list \<Rightarrow> int \<Rightarrow> int
     \<Rightarrow> error option \<times> mem" where
  "cpu_barrier_option d_s T K B S0 sigma mu r d_normals N_STEPS N_PATHS =
     (case prelude T mu r N_STEPS of
        Inl e \<Rightarrow>
          if e = ZeroDivisionError then (Some ZeroDivisionError, (d_s, d_normals))
          else for_paths (nonreal_path (exp (- r * T)) K N_STEPS)
                 (range1 N_PATHS) (d_s, d_normals)
      | Inr (tmp1, tmp2, tmp3) \<Rightarrow>
          for_paths (cpu_path tmp1 tmp2 tmp3 K B S0 sigma N_STEPS N_PATHS)
            (range1 N_PATHS) (d_s, d_normals))"

text \<open>
  The multi-core kernel has the same text with \<^verbatim>\<open>prange(N_PATHS)\<close> as its outer loop. The
  order in which the iterations run is the argument \<open>sched\<close>; it is a schedule of
  \<^verbatim>\<open>prange(N_PATHS)\<close> when it holds each index of the range once.
\<close>

definition prange_schedule :: "int \<Rightarrow> nat list \<Rightarrow> bool" where
  "prange_schedule N_PATHS sched = (mset sched = mset (range1 N_PATHS))"

definition cpu_multicore_barrier_option ::
  "nat list \<Rightarrow> real list \<Rightarrow> real \<Rightarrow> real \<Rightarrow> real \<Rightarrow> real \<Rightarrow> real \<Rightarrow> real \<Rightarrow> real \<Rightarrow> real list
     \<Rightarrow> int \<Rightarrow> int \<Rightarrow> error option \<times> mem" where
  "cpu_multicore_barrier_option sched d_s T K B S0 sigma mu r d_normals N_STEPS N_PATHS =
     (case prelude T mu r N_STEPS of
        Inl e \<Rightarrow>
          if e = ZeroDivisionError then (Some ZeroDivisionError, (d_s, d_normals))
          else for_paths (nonreal_path (exp (- r * T)) K N_STEPS) sched (d_s, d_normals)
      | Inr (tmp1, tmp2, tmp3) \<Rightarrow>
          for_paths (cpu_path tmp1 tmp2 tmp3 K B S0 sigma N_STEPS N_PATHS)
            sched (d_s, d_normals))"

text \<open>
  The CUDA kernel as one thread runs it, with the thread's coordinates
  \<^verbatim>\<open>cuda.threadIdx.x\<close>, \<^verbatim>\<open>cuda.blockIdx.x\<close>, \<^verbatim>\<open>cuda.blockDim.x\<close>, \<^verbatim>\<open>cuda.gridDim.x\<close>:
  \<^verbatim>\<open>ii = threadIdx + blockIdx * blockDim\<close>, \<^verbatim>\<open>stride = gridDim * blockDim\<close> and the outer
  loop \<^verbatim>\<open>for i in range(ii, N_PATHS, stride)\<close>. The kernel raises nothing: for a step count
  of zero it goes on with temporaries that are not real numbers.
\<close>

definition numba_gpu_barrier_option ::
  "nat \<Rightarrow> nat \<Rightarrow> nat \<Rightarrow> nat \<Rightarrow> real list \<Rightarrow> real \<Rightarrow> real \<Rightarrow> real \<Rightarrow> real \<Rightarrow> real \<Rightarrow> real \<Rightarrow> real
     \<Rightarrow> real list \<Rightarrow> int \<Rightarrow> int \<Rightarrow> error option \<times> mem" where
  "numba_gpu_barrier_option threadIdx blockIdx blockDim gridDim
       d_s T K B S0 sigma mu r d_normals N_STEPS N_PATHS =
     (let ii = threadIdx + blockIdx * blockDim;
          stride = gridDim * blockDim
      in case prelude T mu r N_STEPS of
           Inl e \<Rightarrow>
             (case range3 ii N_PATHS stride of
                Inl e' \<Rightarrow> (Some e', (d_s, d_normals))
              | Inr is \<Rightarrow>
                  for_paths (nonreal_path (exp (- r * T)) K N_STEPS) is (d_s, d_normals))
         | Inr (tmp1, tmp2, tmp3) \<Rightarrow>
             (case range3 ii N_PATHS stride of
                Inl e \<Rightarrow> (Some e, (d_s, d_normals))
              | Inr is \<Rightarrow>
                  for_paths (gpu_path tmp1 tmp2 tmp3 K B S0 sigma N_STEPS N_PATHS)
                    is (d_s, d_normals)))"

text \<open>
  The launch \<^verbatim>\<open>numba_gpu_barrier_option[(number_of_blocks,), (number_of_threads,)](...)\<close>:
  every thread \<open>(blockIdx, threadIdx)\<close> of the grid runs the kernel on the shared arrays.
  The threads run in the order \<open>sched\<close>, a schedule of the grid when it holds each thread
  of the grid once; the driver computes
  \<^verbatim>\<open>number_of_blocks = (N_PATHS-1) // number_of_threads + 1\<close>, a floor division that
  raises for a divisor of zero.
\<close>

definition grid_units :: "nat \<Rightarrow> nat \<Rightarrow> (nat \<times> nat) list" where
  "grid_units gridDim blockDim =
     concat (map (\<lambda>blockIdx. map (\<lambda>threadIdx. (blockIdx, threadIdx)) [0..<blockDim])
       [0..<gridDim])"

definition grid_schedule :: "nat \<Rightarrow> nat \<Rightarrow> (nat \<times> nat) list \<Rightarrow> bool" where
  "grid_schedule gridDim blockDim sched = (mset sched = mset (grid_units gridDim blockDim))"

fun run_units ::
  "(nat \<Rightarrow> nat \<Rightarrow> mem \<Rightarrow> error option \<times> mem) \<Rightarrow> (nat \<times> nat) list \<Rightarrow> mem
     \<Rightarrow> error option \<times> mem" where
  "run_units kern [] m = (None, m)"
| "run_units kern ((blockIdx, threadIdx) # us) m =
     (case kern threadIdx blockIdx m of
        (Some e, m') \<Rightarrow> (Some e, m')
      | (None, m') \<Rightarrow> run_units kern us m')"

definition gpu_launch ::
  "(nat \<times> nat) list \<Rightarrow> nat \<Rightarrow> nat \<Rightarrow> real list \<Rightarrow> real \<Rightarrow> real \<Rightarrow> real \<Rightarrow> real \<Rightarrow> real \<Rightarrow> real
     \<Rightarrow> real \<Rightarrow> real list \<Rightarrow> int \<Rightarrow> int \<Rightarrow> error option \<times> mem" where
  "gpu_launch sched gridDim blockDim d_s T K B S0 sigma mu r d_normals N_STEPS N_PATHS =
     run_units
       (\<lambda>threadIdx blockIdx m.
          numba_gpu_barrier_option threadIdx blockIdx blockDim gridDim
            (fst m) T K B S0 sigma mu r (snd m) N_STEPS N_PATHS)
       sched (d_s, d_normals)"

definition number_of_blocks :: "int \<Rightarrow> int \<Rightarrow> error + int" where
  "number_of_blocks N_PATHS number_of_threads =
     (if number_of_threads = 0 then Inl ZeroDivisionError
      else Inr ((N_PATHS - 1) div number_of_threads + 1))"

subsection \<open>Auxiliary notions\<close>

text \<open>The value the body of the outer loop stores for the path \<open>i\<close>: the discounted payoff
  of the running average the inner loop ends with.\<close>

definition path_value ::
  "real \<Rightarrow> real \<Rightarrow> real \<Rightarrow> real \<Rightarrow> real \<Rightarrow> real \<Rightarrow> real \<Rightarrow> int \<Rightarrow> int \<Rightarrow> real list \<Rightarrow> nat
     \<Rightarrow> error + real" where
  "path_value tmp1 tmp2 tmp3 K B S0 sigma N_STEPS N_PATHS d_normals i =
     (case cpu_steps tmp1 tmp3 sigma B d_normals N_PATHS i (range1 N_STEPS) (S0, 0) of
        Inl e \<Rightarrow> Inl e
      | Inr (s_curr, running_average) \<Rightarrow>
          Inr (tmp2 * (if running_average > K then running_average - K else 0)))"

text \<open>A loop body that computes a value from the draws and stores it in slot \<open>i\<close> of the
  output; \<open>path_ok\<close> holds when it stores a value, and \<open>stored\<close> is the memory after the
  bodies of the paths \<open>is\<close> have all run.\<close>

definition store_path :: "(real list \<Rightarrow> nat \<Rightarrow> error + real) \<Rightarrow> nat \<Rightarrow> mem \<Rightarrow> error + mem" where
  "store_path g i m =
     (case g (snd m) i of
        Inl e \<Rightarrow> Inl e
      | Inr v \<Rightarrow> if i < length (fst m) then Inr ((fst m)[i := v], snd m) else Inl IndexError)"

definition path_ok :: "(real list \<Rightarrow> nat \<Rightarrow> error + real) \<Rightarrow> mem \<Rightarrow> nat \<Rightarrow> bool" where
  "path_ok g m i = (i < length (fst m) \<and> (\<exists>v. g (snd m) i = Inr v))"

definition stored :: "(real list \<Rightarrow> nat \<Rightarrow> error + real) \<Rightarrow> nat list \<Rightarrow> mem \<Rightarrow> mem" where
  "stored g is m =
     (map (\<lambda>j. if j \<in> set is then projr (g (snd m) j) else fst m ! j) [0..<length (fst m)],
      snd m)"

text \<open>The value \<open>nonreal_path\<close> stores, or the reason for which it stops.\<close>

definition nonreal_value :: "real \<Rightarrow> real \<Rightarrow> int \<Rightarrow> real list \<Rightarrow> nat \<Rightarrow> error + real" where
  "nonreal_value tmp2 K N_STEPS d_normals i =
     (case range1 N_STEPS of
        [] \<Rightarrow> Inr (tmp2 * (if 0 > K then 0 - K else 0))
      | n # ns \<Rightarrow> Inl NotANumber)"

text \<open>The indices \<open>start, start + step, start + 2 * step, \<dots>\<close> below \<open>stop\<close>, and the path
  indices that the outer loop of the thread \<open>u = (blockIdx, threadIdx)\<close> visits.\<close>

definition strided :: "nat \<Rightarrow> nat \<Rightarrow> nat \<Rightarrow> nat list" where
  "strided start stop step = map (\<lambda>k. start + k * step) [0..<(stop - start + step - 1) div step]"

definition unit_paths :: "nat \<Rightarrow> nat \<Rightarrow> int \<Rightarrow> nat \<times> nat \<Rightarrow> nat list" where
  "unit_paths gridDim blockDim N_PATHS u =
     (case range3 (snd u + fst u * blockDim) N_PATHS (gridDim * blockDim) of
        Inl e \<Rightarrow> []
      | Inr is \<Rightarrow> is)"

section \<open>Properties of the loops\<close>

lemma gpu_steps_cpu_steps:
  "gpu_steps tmp1 tmp3 sigma B d_normals N_PATHS i ns st
     = cpu_steps tmp1 tmp3 sigma B d_normals N_PATHS i ns st"
proof (induction ns arbitrary: st)
  case Nil
  show ?case by (cases st) simp
next
  case (Cons n ns)
  show ?case by (cases st) (simp add: Cons.IH Let_def split: sum.splits)
qed

lemma gpu_path_cpu_path:
  "gpu_path tmp1 tmp2 tmp3 K B S0 sigma N_STEPS N_PATHS
     = cpu_path tmp1 tmp2 tmp3 K B S0 sigma N_STEPS N_PATHS"
  by (intro ext) (simp add: gpu_path_def cpu_path_def gpu_steps_cpu_steps)

lemma cpu_steps_error:
  "cpu_steps tmp1 tmp3 sigma B d_normals N_PATHS i ns st = Inl e \<Longrightarrow> e = IndexError"
proof (induction ns arbitrary: st)
  case Nil
  then show ?case by (cases st) simp
next
  case (Cons n ns)
  then show ?case
    by (cases st) (auto simp: Let_def getitem_def split: sum.splits if_splits)
qed

lemma path_value_error:
  "path_value tmp1 tmp2 tmp3 K B S0 sigma N_STEPS N_PATHS d_normals i = Inl e \<Longrightarrow> e = IndexError"
  by (auto simp: path_value_def split: sum.splits dest: cpu_steps_error)

lemma cpu_path_store:
  "cpu_path tmp1 tmp2 tmp3 K B S0 sigma N_STEPS N_PATHS
     = store_path (path_value tmp1 tmp2 tmp3 K B S0 sigma N_STEPS N_PATHS)"
  by (intro ext)
    (auto simp: cpu_path_def store_path_def path_value_def setitem_def Let_def
      split: sum.splits prod.splits)

lemma for_paths_frame:
  "for_paths (store_path g) is m = (e, m') \<Longrightarrow>
     snd m' = snd m \<and> length (fst m') = length (fst m)
       \<and> (\<forall>j. j \<notin> set is \<longrightarrow> fst m' ! j = fst m ! j)"
proof (induction "is" arbitrary: m)
  case Nil
  then show ?case by simp
next
  case (Cons i "is")
  show ?case
  proof (cases "store_path g i m")
    case (Inl e')
    with Cons.prems show ?thesis by simp
  next
    case (Inr m1)
    with Cons.prems have run: "for_paths (store_path g) is m1 = (e, m')" by simp
    from Inr have m1: "snd m1 = snd m" "length (fst m1) = length (fst m)"
      "\<forall>j. j \<noteq> i \<longrightarrow> fst m1 ! j = fst m ! j"
      by (auto simp: store_path_def split: sum.splits if_splits)
    from Cons.IH [OF run] m1 show ?thesis by simp
  qed
qed

lemma for_paths_ok:
  "\<forall>i \<in> set is. path_ok g m i \<Longrightarrow> for_paths (store_path g) is m = (None, stored g is m)"
proof (induction "is" arbitrary: m)
  case Nil
  show ?case by (simp add: stored_def map_nth)
next
  case (Cons i "is")
  from Cons.prems obtain v where v: "g (snd m) i = Inr v" and i: "i < length (fst m)"
    by (auto simp: path_ok_def)
  let ?m1 = "((fst m)[i := v], snd m)"
  have step: "store_path g i m = Inr ?m1"
    using v i by (simp add: store_path_def)
  have ok1: "\<forall>k \<in> set is. path_ok g ?m1 k"
    using Cons.prems by (simp add: path_ok_def)
  have "stored g is ?m1 = stored g (i # is) m"
    using v i by (auto simp: stored_def nth_list_update)
  with Cons.IH [OF ok1] step show ?case by simp
qed

lemma for_paths_fails:
  assumes "\<exists>i \<in> set is. \<not> path_ok g m i"
    and "\<And>i e. g (snd m) i = Inl e \<Longrightarrow> e = IndexError"
  shows "fst (for_paths (store_path g) is m) = Some IndexError"
  using assms
proof (induction "is" arbitrary: m)
  case Nil
  then show ?case by simp
next
  case (Cons i "is")
  show ?case
  proof (cases "store_path g i m")
    case (Inl e')
    then have "e' = IndexError"
      using Cons.prems(2) by (auto simp: store_path_def split: sum.splits if_splits)
    with Inl show ?thesis by simp
  next
    case (Inr m1)
    then have m1: "snd m1 = snd m" "length (fst m1) = length (fst m)" and oki: "path_ok g m i"
      by (auto simp: store_path_def path_ok_def split: sum.splits if_splits)
    then have same: "\<And>k. path_ok g m1 k = path_ok g m k"
      by (simp add: path_ok_def)
    have "\<exists>k \<in> set is. \<not> path_ok g m1 k"
      using Cons.prems(1) oki by (auto simp: same)
    moreover have "\<And>k e. g (snd m1) k = Inl e \<Longrightarrow> e = IndexError"
      using Cons.prems(2) m1 by simp
    ultimately have "fst (for_paths (store_path g) is m1) = Some IndexError"
      by (rule Cons.IH)
    with Inr show ?thesis by simp
  qed
qed

lemma for_paths_append:
  "for_paths body (xs @ ys) m =
     (case for_paths body xs m of
        (Some e, m') \<Rightarrow> (Some e, m')
      | (None, m') \<Rightarrow> for_paths body ys m')"
  by (induction xs arbitrary: m) (auto split: sum.splits)

lemma strided_member_iff:
  fixes k :: nat
  assumes "0 < U" "ii < U"
  shows "k < (P - ii + U - 1) div U \<longleftrightarrow> ii + k * U < P"
proof -
  have "k < (P - ii + U - 1) div U \<longleftrightarrow> Suc k \<le> (P - ii + U - 1) div U" by auto
  also have "\<dots> \<longleftrightarrow> Suc k * U \<le> P - ii + U - 1"
    using assms(1) by (simp add: less_eq_div_iff_mult_less_eq)
  also have "\<dots> \<longleftrightarrow> ii + k * U < P"
    using assms by auto
  finally show ?thesis .
qed

lemma set_strided:
  assumes "0 < U" "ii < U"
  shows "set (strided ii P U) = {x. x < P \<and> x mod U = ii}"
proof (intro set_eqI iffI)
  fix x assume "x \<in> set (strided ii P U)"
  then obtain k where k: "k < (P - ii + U - 1) div U" and x: "x = ii + k * U"
    by (auto simp: strided_def)
  from k have "ii + k * U < P" using strided_member_iff [OF assms] by blast
  with x assms show "x \<in> {x. x < P \<and> x mod U = ii}" by simp
next
  fix x assume "x \<in> {x. x < P \<and> x mod U = ii}"
  then have xP: "x < P" and xm: "x mod U = ii" by auto
  have x: "x = ii + (x div U) * U" using xm by (metis add.commute div_mult_mod_eq)
  with xP have "x div U < (P - ii + U - 1) div U"
    using strided_member_iff [OF assms, of "x div U" P] by simp
  then have "x div U \<in> set [0..<(P - ii + U - 1) div U]" by simp
  then have "ii + (x div U) * U \<in> set (strided ii P U)"
    unfolding strided_def set_map by (rule imageI)
  with x show "x \<in> set (strided ii P U)" by simp
qed

lemma distinct_strided: "0 < U \<Longrightarrow> distinct (strided ii P U)"
  by (simp add: strided_def distinct_map inj_on_def)

lemma distinct_strided_concat:
  assumes "0 < U"
  shows "distinct xs \<Longrightarrow> \<forall>ii \<in> set xs. ii < U
    \<Longrightarrow> distinct (concat (map (\<lambda>ii. strided ii P U) xs))"
proof (induction xs)
  case Nil
  show ?case by simp
next
  case (Cons a xs)
  have "set (strided a P U) \<inter> set (concat (map (\<lambda>ii. strided ii P U) xs)) = {}"
  proof (rule ccontr)
    assume "\<not> ?thesis"
    then obtain x b where "x \<in> set (strided a P U)" "b \<in> set xs" "x \<in> set (strided b P U)"
      by auto
    with Cons.prems assms have "x mod U = a" "x mod U = b" "a \<noteq> b"
      by (auto simp: set_strided)
    then show False by simp
  qed
  with Cons assms show ?case by (simp add: distinct_strided)
qed

lemma mset_strided_all:
  assumes "0 < U"
  shows "mset (concat (map (\<lambda>ii. strided ii P U) [0..<U])) = mset [0..<P]"
proof -
  have d: "distinct (concat (map (\<lambda>ii. strided ii P U) [0..<U]))"
    using assms by (intro distinct_strided_concat) simp_all
  have "set (concat (map (\<lambda>ii. strided ii P U) [0..<U])) = set [0..<P]"
    using assms by (auto simp: set_strided)
  with set_eq_iff_mset_eq_distinct [OF d distinct_upt] show ?thesis
    by blast
qed

lemma length_strided_bounds:
  assumes "0 < U" "ii < U"
  shows "length (strided ii P U) = P div U \<or> length (strided ii P U) = (P + U - 1) div U"
proof -
  let ?n = "(P - ii + U - 1) div U"
  have lo: "P div U \<le> ?n" using assms by (intro div_le_mono) auto
  have hi: "?n \<le> (P + U - 1) div U" by (intro div_le_mono) auto
  have "(P + U - 1) div U \<le> P div U + 1"
  proof -
    have "(P + U - 1) div U \<le> (P + U) div U" by (intro div_le_mono) auto
    also have "\<dots> = P div U + 1" using assms by simp
    finally show ?thesis .
  qed
  with lo hi show ?thesis by (auto simp: strided_def)
qed

lemma grid_units_index:
  "map (\<lambda>u. snd u + fst u * blockDim) (grid_units gridDim blockDim) = [0..<gridDim * blockDim]"
proof (induction gridDim)
  case 0
  show ?case by (simp add: grid_units_def)
next
  case (Suc g)
  have "map (\<lambda>u. snd u + fst u * blockDim) (map (\<lambda>threadIdx. (g, threadIdx)) [0..<blockDim])
      = map (\<lambda>t. t + g * blockDim) [0..<blockDim]"
    by (simp add: comp_def)
  also have "\<dots> = [g * blockDim..<g * blockDim + blockDim]"
    by (simp add: map_add_upt add.commute)
  finally have "map (\<lambda>u. snd u + fst u * blockDim) (grid_units (Suc g) blockDim)
      = [0..<g * blockDim] @ [g * blockDim..<g * blockDim + blockDim]"
    using Suc by (simp add: grid_units_def)
  also have "\<dots> = [0..<g * blockDim + blockDim]"
    by (rule upt_add_eq_append [symmetric]) simp
  finally show ?case by (simp add: add.commute)
qed

lemma unit_paths_strided:
  "0 < gridDim * blockDim \<Longrightarrow>
     unit_paths gridDim blockDim N_PATHS u
       = strided (snd u + fst u * blockDim) (nat N_PATHS) (gridDim * blockDim)"
  by (simp add: unit_paths_def range3_def strided_def)

lemma mset_concat_map_cong:
  "mset xs = mset ys \<Longrightarrow> mset (concat (map f xs)) = mset (concat (map f ys))"
  by (metis mset_concat mset_map sum_mset_sum_list)

lemma mset_unit_paths:
  assumes "0 < gridDim * blockDim" and "grid_schedule gridDim blockDim sched"
  shows "mset (concat (map (unit_paths gridDim blockDim N_PATHS) sched)) = mset (range1 N_PATHS)"
proof -
  let ?U = "gridDim * blockDim"
  let ?f = "\<lambda>ii. strided ii (nat N_PATHS) ?U"
  have "mset (concat (map (unit_paths gridDim blockDim N_PATHS) sched))
      = mset (concat (map (unit_paths gridDim blockDim N_PATHS) (grid_units gridDim blockDim)))"
    using assms(2) by (intro mset_concat_map_cong) (simp add: grid_schedule_def)
  also have "map (unit_paths gridDim blockDim N_PATHS) (grid_units gridDim blockDim)
      = map ?f (map (\<lambda>u. snd u + fst u * blockDim) (grid_units gridDim blockDim))"
    using assms(1) by (simp add: unit_paths_strided)
  also have "\<dots> = map ?f [0..<?U]" by (simp only: grid_units_index)
  also have "mset (concat \<dots>) = mset [0..<nat N_PATHS]"
    using assms(1) by (rule mset_strided_all)
  finally show ?thesis by (simp add: range1_def)
qed

lemma cpu_steps_append:
  "cpu_steps tmp1 tmp3 sigma B d_normals N_PATHS i (xs @ ys) st =
     (case cpu_steps tmp1 tmp3 sigma B d_normals N_PATHS i xs st of
        Inl e \<Rightarrow> Inl e
      | Inr (s, a) \<Rightarrow>
          if xs \<noteq> [] \<and> a \<le> B then Inr (s, a)
          else cpu_steps tmp1 tmp3 sigma B d_normals N_PATHS i ys (s, a))"
proof (induction xs arbitrary: st)
  case Nil
  show ?case by (cases st) simp
next
  case (Cons n ns)
  obtain s a where st: "st = (s, a)" by (cases st)
  show ?case
  proof (cases "getitem d_normals (int i + int n * N_PATHS)")
    case (Inl e)
    then show ?thesis by (simp add: st)
  next
    case (Inr z)
    let ?s = "s + (tmp1 * s + sigma * s * tmp3 * z)"
    let ?a = "a + 1 / (real n + 1) * (?s - a)"
    show ?thesis
    proof (cases "?a \<le> B")
      case True
      with Inr show ?thesis by (simp add: st Let_def)
    next
      case False
      have "ns = [] \<Longrightarrow> ?thesis" using Inr False by (simp add: st Let_def)
      moreover have "ns \<noteq> [] \<Longrightarrow> ?thesis"
        using Inr False Cons.IH [of "(?s, ?a)"]
        by (simp add: st Let_def split: sum.splits prod.splits)
      ultimately show ?thesis by blast
    qed
  qed
qed

lemma cpu_steps_cong:
  assumes "\<forall>n \<in> set ns. getitem xs (int i + int n * N_PATHS) = getitem ys (int i + int n * N_PATHS)"
  shows "cpu_steps tmp1 tmp3 sigma B xs N_PATHS i ns st
       = cpu_steps tmp1 tmp3 sigma B ys N_PATHS i ns st"
  using assms
proof (induction ns arbitrary: st)
  case Nil
  show ?case by (cases st) simp
next
  case (Cons n ns)
  then show ?case by (cases st) (simp add: Let_def split: sum.splits)
qed

lemma gpu_kernel_for_paths:
  assumes "prelude T mu r N_STEPS = Inr (tmp1, tmp2, tmp3)" and "0 < gridDim * blockDim"
  shows "numba_gpu_barrier_option threadIdx blockIdx blockDim gridDim
           d_s T K B S0 sigma mu r d_normals N_STEPS N_PATHS
       = for_paths (cpu_path tmp1 tmp2 tmp3 K B S0 sigma N_STEPS N_PATHS)
           (unit_paths gridDim blockDim N_PATHS (blockIdx, threadIdx)) (d_s, d_normals)"
  using assms
  by (simp add: numba_gpu_barrier_option_def unit_paths_def range3_def gpu_path_cpu_path Let_def)

lemma run_units_for_paths:
  assumes "\<And>threadIdx blockIdx m. kern threadIdx blockIdx m = for_paths body (f (blockIdx, threadIdx)) m"
  shows "run_units kern sched m = for_paths body (concat (map f sched)) m"
proof (induction sched arbitrary: m)
  case Nil
  show ?case by simp
next
  case (Cons u us)
  obtain b t where u: "u = (b, t)" by (cases u)
  have "run_units kern (u # us) m =
      (case for_paths body (f (b, t)) m of
         (Some e, m') \<Rightarrow> (Some e, m')
       | (None, m') \<Rightarrow> run_units kern us m')"
    by (simp only: u run_units.simps assms)
  also have "\<dots> =
      (case for_paths body (f (b, t)) m of
         (Some e, m') \<Rightarrow> (Some e, m')
       | (None, m') \<Rightarrow> for_paths body (concat (map f us)) m')"
    by (simp only: Cons.IH)
  also have "\<dots> = for_paths body (concat (map f (u # us))) m"
    by (simp add: u for_paths_append)
  finally show ?case .
qed

lemma gpu_launch_for_paths:
  assumes "prelude T mu r N_STEPS = Inr (tmp1, tmp2, tmp3)" and "0 < gridDim * blockDim"
  shows "gpu_launch sched gridDim blockDim d_s T K B S0 sigma mu r d_normals N_STEPS N_PATHS
       = for_paths (cpu_path tmp1 tmp2 tmp3 K B S0 sigma N_STEPS N_PATHS)
           (concat (map (unit_paths gridDim blockDim N_PATHS) sched)) (d_s, d_normals)"
  unfolding gpu_launch_def
  by (rule run_units_for_paths) (simp add: gpu_kernel_for_paths [OF assms])

lemma gpu_kernel_nonreal:
  assumes "prelude T mu r N_STEPS = Inl e" and "0 < gridDim * blockDim"
  shows "numba_gpu_barrier_option threadIdx blockIdx blockDim gridDim
           d_s T K B S0 sigma mu r d_normals N_STEPS N_PATHS
       = for_paths (nonreal_path (exp (- r * T)) K N_STEPS)
           (unit_paths gridDim blockDim N_PATHS (blockIdx, threadIdx)) (d_s, d_normals)"
  using assms
  by (simp add: numba_gpu_barrier_option_def unit_paths_def range3_def Let_def)

lemma gpu_launch_nonreal:
  assumes "prelude T mu r N_STEPS = Inl e" and "0 < gridDim * blockDim"
  shows "gpu_launch sched gridDim blockDim d_s T K B S0 sigma mu r d_normals N_STEPS N_PATHS
       = for_paths (nonreal_path (exp (- r * T)) K N_STEPS)
           (concat (map (unit_paths gridDim blockDim N_PATHS) sched)) (d_s, d_normals)"
  unfolding gpu_launch_def
  by (rule run_units_for_paths) (simp add: gpu_kernel_nonreal [OF assms])

lemma nonreal_path_store:
  "nonreal_path tmp2 K N_STEPS = store_path (nonreal_value tmp2 K N_STEPS)"
  by (intro ext)
    (auto simp: nonreal_path_def store_path_def nonreal_value_def setitem_def Let_def
      split: list.splits prod.splits)

lemma prelude_Inl:
  assumes "prelude T mu r N_STEPS = Inl e"
  shows "(e = ZeroDivisionError \<and> N_STEPS = 0)
       \<or> (e = NotANumber \<and> N_STEPS \<noteq> 0 \<and> T / real_of_int N_STEPS < 0)"
  using assms
  by (auto simp: prelude_def truediv_def math_sqrt_def Let_def split: if_splits)

lemma prelude_real:
  assumes "1 \<le> N_STEPS" and "0 \<le> T"
  shows "\<exists>tmp1 tmp2 tmp3. prelude T mu r N_STEPS = Inr (tmp1, tmp2, tmp3)"
proof -
  have "0 \<le> T / real_of_int N_STEPS" using assms by simp
  then show ?thesis
    using assms(1) by (auto simp: prelude_def truediv_def math_sqrt_def Let_def)
qed

lemma for_paths_stops:
  assumes "\<exists>i \<in> set is. \<not> path_ok g m i"
  shows "fst (for_paths (store_path g) is m) \<noteq> None"
  using assms
proof (induction "is" arbitrary: m)
  case Nil
  then show ?case by simp
next
  case (Cons i "is")
  show ?case
  proof (cases "store_path g i m")
    case (Inl e')
    then show ?thesis by simp
  next
    case (Inr m1)
    then have m1: "snd m1 = snd m" "length (fst m1) = length (fst m)" and oki: "path_ok g m i"
      by (auto simp: store_path_def path_ok_def split: sum.splits if_splits)
    then have same: "\<And>k. path_ok g m1 k = path_ok g m k"
      by (simp add: path_ok_def)
    have "\<exists>k \<in> set is. \<not> path_ok g m1 k"
      using Cons.prems oki by (auto simp: same)
    then have "fst (for_paths (store_path g) is m1) \<noteq> None"
      by (rule Cons.IH)
    with Inr show ?thesis by simp
  qed
qed

lemma for_paths_None_iff:
  "fst (for_paths (store_path g) is m) = None \<longleftrightarrow> (\<forall>i \<in> set is. path_ok g m i)"
proof
  assume "fst (for_paths (store_path g) is m) = None"
  then show "\<forall>i \<in> set is. path_ok g m i"
    using for_paths_stops [of "is" g m] by blast
next
  assume "\<forall>i \<in> set is. path_ok g m i"
  then show "fst (for_paths (store_path g) is m) = None"
    by (simp add: for_paths_ok)
qed


lemma for_paths_None_stored:
  assumes "fst (for_paths (store_path g) is m) = None" and "i \<in> set is"
  shows "\<exists>v. g (snd m) i = Inr v \<and> i < length (fst m)
           \<and> fst (snd (for_paths (store_path g) is m)) ! i = v"
proof -
  from assms(1) have ok: "\<forall>i \<in> set is. path_ok g m i" by (simp add: for_paths_None_iff)
  with assms(2) obtain v where v: "g (snd m) i = Inr v" and i: "i < length (fst m)"
    by (auto simp: path_ok_def)
  have "fst (stored g is m) ! i = v"
    using i v assms(2) by (simp add: stored_def)
  with v i show ?thesis by (simp add: for_paths_ok [OF ok])
qed

lemma for_paths_status:
  assumes "\<And>i e. g (snd m) i = Inl e \<Longrightarrow> e = IndexError"
  shows "for_paths (store_path g) is m =
     (if \<forall>i \<in> set is. path_ok g m i then (None, stored g is m)
      else (Some IndexError, snd (for_paths (store_path g) is m)))"
proof (cases "\<forall>i \<in> set is. path_ok g m i")
  case True
  then show ?thesis by (simp add: for_paths_ok)
next
  case False
  then have "fst (for_paths (store_path g) is m) = Some IndexError"
    using assms by (intro for_paths_fails) auto
  with False show ?thesis by (simp add: prod_eq_iff)
qed

lemma grid_units_index_less:
  assumes "u \<in> set (grid_units gridDim blockDim)"
  shows "snd u + fst u * blockDim < gridDim * blockDim"
proof -
  from assms have "snd u + fst u * blockDim
      \<in> (\<lambda>u. snd u + fst u * blockDim) ` set (grid_units gridDim blockDim)"
    by (rule imageI)
  then have "snd u + fst u * blockDim
      \<in> set (map (\<lambda>u. snd u + fst u * blockDim) (grid_units gridDim blockDim))"
    by (simp only: set_map)
  then show ?thesis by (simp only: grid_units_index) simp
qed

lemma number_of_blocks_pos:
  assumes "number_of_blocks N_PATHS (int number_of_threads) = Inr (int gridDim)"
    and "1 \<le> N_PATHS"
  shows "0 < gridDim * number_of_threads"
proof -
  from assms(1) have t: "0 < number_of_threads"
    and g: "int gridDim = (N_PATHS - 1) div int number_of_threads + 1"
    by (auto simp: number_of_blocks_def split: if_splits)
  have "0 \<le> (N_PATHS - 1) div int number_of_threads"
    using t assms(2) by (intro pos_imp_zdiv_nonneg_iff [THEN iffD2]) auto
  with g have "0 < gridDim" by linarith
  with t show ?thesis by simp
qed

lemma gpu_steps_eq: "gpu_steps = cpu_steps"
  by (intro ext) (rule gpu_steps_cpu_steps)

lemma prelude_Inr:
  assumes "prelude T mu r N_STEPS = Inr (tmp1, tmp2, tmp3)"
  shows "N_STEPS \<noteq> 0" and "0 \<le> T / real_of_int N_STEPS"
    and "tmp1 = mu * T / real_of_int N_STEPS" and "tmp2 = exp (- r * T)"
    and "tmp3 = sqrt (T / real_of_int N_STEPS)"
  using assms
  by (auto simp: prelude_def truediv_def math_sqrt_def Let_def split: if_splits)

lemma range1_Suc: "range1 (int n + 1) = range1 (int n) @ [n]"
  by (simp add: range1_def nat_add_distrib)

lemma range1_split:
  assumes "int n < N"
  shows "range1 N = range1 (int n) @ n # [Suc n..<nat N]"
proof -
  have "n < nat N" using assms by simp
  then have "[0..<nat N] = [0..<n] @ n # [Suc n..<nat N]"
    by (metis le0 upt_add_eq_append upt_conv_Cons le_add_diff_inverse less_imp_le_nat add_0)
  then show ?thesis by (simp add: range1_def)
qed

lemma cpu_steps_step:
  assumes "cpu_steps tmp1 tmp3 sigma B d_normals N_PATHS i (range1 (int n)) (S0, 0) = Inr (price, avg)"
    and "n = 0 \<or> B < avg"
    and "getitem d_normals (int i + int n * N_PATHS) = Inr z"
  shows "cpu_steps tmp1 tmp3 sigma B d_normals N_PATHS i (range1 (int n) @ n # rest) (S0, 0) =
     (let price' = price + (tmp1 * price + sigma * price * tmp3 * z);
          avg' = avg + (price' - avg) / (real n + 1)
      in if avg' \<le> B then Inr (price', avg')
         else cpu_steps tmp1 tmp3 sigma B d_normals N_PATHS i rest (price', avg'))"
proof -
  have ne: "(range1 (int n) \<noteq> [] \<and> avg \<le> B) \<longleftrightarrow> False"
    using assms(2) by (auto simp: range1_def)
  show ?thesis
    by (simp only: cpu_steps_append assms(1) sum.case prod.case ne if_False)
      (simp add: assms(3) Let_def)
qed

lemma cpu_steps_exit:
  assumes "cpu_steps tmp1 tmp3 sigma B d_normals N_PATHS i (range1 (int n + 1)) (S0, 0) = Inr (price, avg)"
    and "avg \<le> B" and "int n < N_STEPS"
  shows "cpu_steps tmp1 tmp3 sigma B d_normals N_PATHS i (range1 N_STEPS) (S0, 0) = Inr (price, avg)"
proof -
  have "range1 N_STEPS = range1 (int n + 1) @ [Suc n..<nat N_STEPS]"
    using range1_split [OF assms(3)] by (simp add: range1_Suc)
  moreover have "range1 (int n + 1) \<noteq> []" by (simp add: range1_Suc)
  ultimately show ?thesis
    using assms(1,2) by (simp add: cpu_steps_append)
qed

lemma cpu_steps_prefix_cong:
  assumes "\<forall>k \<le> n. getitem xs (int i + int k * N_PATHS) = getitem ys (int i + int k * N_PATHS)"
  shows "cpu_steps tmp1 tmp3 sigma B xs N_PATHS i (range1 (int n + 1)) st
       = cpu_steps tmp1 tmp3 sigma B ys N_PATHS i (range1 (int n + 1)) st"
  using assms by (intro cpu_steps_cong) (auto simp: range1_def)

lemma kernel_real:
  assumes "res = cpu_barrier_option d_s T K B S0 sigma mu r d_normals N_STEPS N_PATHS
      \<or> (prange_schedule N_PATHS sched
          \<and> res = cpu_multicore_barrier_option sched d_s T K B S0 sigma mu r d_normals N_STEPS N_PATHS)
      \<or> (grid_schedule gridDim blockDim usched \<and> 0 < gridDim \<and> 0 < blockDim
          \<and> res = gpu_launch usched gridDim blockDim d_s T K B S0 sigma mu r d_normals N_STEPS N_PATHS)"
    and p: "prelude T mu r N_STEPS = Inr (tmp1, tmp2, tmp3)"
  shows "\<exists>is. set is = set (range1 N_PATHS)
           \<and> res = for_paths (cpu_path tmp1 tmp2 tmp3 K B S0 sigma N_STEPS N_PATHS) is
                     (d_s, d_normals)"
proof -
  let ?body = "cpu_path tmp1 tmp2 tmp3 K B S0 sigma N_STEPS N_PATHS"
  let ?m = "(d_s, d_normals)"
  from assms(1) consider
    (cpu) "res = cpu_barrier_option d_s T K B S0 sigma mu r d_normals N_STEPS N_PATHS"
    | (multi) "prange_schedule N_PATHS sched"
        "res = cpu_multicore_barrier_option sched d_s T K B S0 sigma mu r d_normals N_STEPS N_PATHS"
    | (gpu) "grid_schedule gridDim blockDim usched" "0 < gridDim" "0 < blockDim"
        "res = gpu_launch usched gridDim blockDim d_s T K B S0 sigma mu r d_normals N_STEPS N_PATHS"
    by blast
  then show ?thesis
  proof cases
    case cpu
    then have "res = for_paths ?body (range1 N_PATHS) ?m"
      using p by (simp add: cpu_barrier_option_def)
    then show ?thesis by blast
  next
    case multi
    then have "res = for_paths ?body sched ?m"
      using p by (simp add: cpu_multicore_barrier_option_def)
    moreover have "set sched = set (range1 N_PATHS)"
      using multi(1) by (auto simp: prange_schedule_def dest: mset_eq_setD)
    ultimately show ?thesis by blast
  next
    case gpu
    have U: "0 < gridDim * blockDim" using gpu(2,3) by simp
    have "res = for_paths ?body (concat (map (unit_paths gridDim blockDim N_PATHS) usched)) ?m"
      unfolding gpu(4) using p U by (rule gpu_launch_for_paths)
    moreover have "set (concat (map (unit_paths gridDim blockDim N_PATHS) usched))
        = set (range1 N_PATHS)"
      using mset_unit_paths [OF U gpu(1), of N_PATHS] by (metis mset_eq_setD)
    ultimately show ?thesis by blast
  qed
qed

lemma kernel_nonreal:
  assumes "res = cpu_barrier_option d_s T K B S0 sigma mu r d_normals N_STEPS N_PATHS
      \<or> (prange_schedule N_PATHS sched
          \<and> res = cpu_multicore_barrier_option sched d_s T K B S0 sigma mu r d_normals N_STEPS N_PATHS)
      \<or> (grid_schedule gridDim blockDim usched \<and> 0 < gridDim \<and> 0 < blockDim
          \<and> res = gpu_launch usched gridDim blockDim d_s T K B S0 sigma mu r d_normals N_STEPS N_PATHS)"
    and p: "prelude T mu r N_STEPS = Inl e"
  shows "(N_STEPS = 0 \<and> res = (Some ZeroDivisionError, (d_s, d_normals)))
       \<or> (\<exists>is. set is = set (range1 N_PATHS)
             \<and> res = for_paths (nonreal_path (exp (- r * T)) K N_STEPS) is (d_s, d_normals))"
proof -
  let ?body = "nonreal_path (exp (- r * T)) K N_STEPS"
  let ?m = "(d_s, d_normals)"
  from assms(1) consider
    (cpu) "res = cpu_barrier_option d_s T K B S0 sigma mu r d_normals N_STEPS N_PATHS"
    | (multi) "prange_schedule N_PATHS sched"
        "res = cpu_multicore_barrier_option sched d_s T K B S0 sigma mu r d_normals N_STEPS N_PATHS"
    | (gpu) "grid_schedule gridDim blockDim usched" "0 < gridDim" "0 < blockDim"
        "res = gpu_launch usched gridDim blockDim d_s T K B S0 sigma mu r d_normals N_STEPS N_PATHS"
    by blast
  then show ?thesis
  proof cases
    case cpu
    show ?thesis
    proof (cases "e = ZeroDivisionError")
      case True
      with prelude_Inl [OF p] cpu p show ?thesis by (simp add: cpu_barrier_option_def)
    next
      case False
      with cpu p have "res = for_paths ?body (range1 N_PATHS) ?m"
        by (simp add: cpu_barrier_option_def)
      then show ?thesis by blast
    qed
  next
    case multi
    have s: "set sched = set (range1 N_PATHS)"
      using multi(1) by (auto simp: prange_schedule_def dest: mset_eq_setD)
    show ?thesis
    proof (cases "e = ZeroDivisionError")
      case True
      with prelude_Inl [OF p] multi p show ?thesis
        by (simp add: cpu_multicore_barrier_option_def)
    next
      case False
      with multi p have "res = for_paths ?body sched ?m"
        by (simp add: cpu_multicore_barrier_option_def)
      with s show ?thesis by blast
    qed
  next
    case gpu
    have U: "0 < gridDim * blockDim" using gpu(2,3) by simp
    have "res = for_paths ?body (concat (map (unit_paths gridDim blockDim N_PATHS) usched)) ?m"
      unfolding gpu(4) using p U by (rule gpu_launch_nonreal)
    moreover have "set (concat (map (unit_paths gridDim blockDim N_PATHS) usched))
        = set (range1 N_PATHS)"
      using mset_unit_paths [OF U gpu(1), of N_PATHS] by (metis mset_eq_setD)
    ultimately show ?thesis by blast
  qed
qed

lemma for_paths_cpu_path_None:
  assumes "fst (for_paths (cpu_path tmp1 tmp2 tmp3 K B S0 sigma N_STEPS N_PATHS) is (d_s, d_normals)) = None"
    and "i \<in> set is"
  shows "\<exists>s_curr running_average.
           cpu_steps tmp1 tmp3 sigma B d_normals N_PATHS i (range1 N_STEPS) (S0, 0)
             = Inr (s_curr, running_average)
         \<and> i < length d_s
         \<and> fst (snd (for_paths (cpu_path tmp1 tmp2 tmp3 K B S0 sigma N_STEPS N_PATHS) is
                       (d_s, d_normals))) ! i
             = tmp2 * (if running_average > K then running_average - K else 0)"
proof -
  let ?g = "path_value tmp1 tmp2 tmp3 K B S0 sigma N_STEPS N_PATHS"
  let ?m = "(d_s, d_normals)"
  have err: "\<And>i e. ?g (snd ?m) i = Inl e \<Longrightarrow> e = IndexError"
    by (rule path_value_error)
  have st: "for_paths (store_path ?g) is ?m =
      (if \<forall>i \<in> set is. path_ok ?g ?m i then (None, stored ?g is ?m)
       else (Some IndexError, snd (for_paths (store_path ?g) is ?m)))"
    using err by (rule for_paths_status)
  from assms(1) have ok: "\<forall>i \<in> set is. path_ok ?g ?m i"
    unfolding cpu_path_store by (subst (asm) st) (simp split: if_splits)
  then have res: "for_paths (store_path ?g) is ?m = (None, stored ?g is ?m)"
    by (rule for_paths_ok)
  from ok assms(2) obtain v where i: "i < length d_s" and v: "?g d_normals i = Inr v"
    by (auto simp: path_ok_def)
  from v obtain s a where
    sa: "cpu_steps tmp1 tmp3 sigma B d_normals N_PATHS i (range1 N_STEPS) (S0, 0) = Inr (s, a)"
    and v': "v = tmp2 * (if a > K then a - K else 0)"
    by (auto simp: path_value_def split: sum.splits)
  have "fst (stored ?g is ?m) ! i = v"
    using i v assms(2) by (simp add: stored_def)
  with sa v' i show ?thesis
    unfolding cpu_path_store res by auto
qed

lemma path_index_less:
  fixes i n P N :: nat
  assumes "i < P" "n < N"
  shows "i + n * P < P * N"
proof -
  have "i + n * P < P + n * P" using assms(1) by simp
  also have "\<dots> = Suc n * P" by simp
  also have "\<dots> \<le> N * P" using assms(2) by (intro mult_le_mono1) simp
  finally show ?thesis by (simp add: mult.commute)
qed

lemma getitem_nat: "k < length xs \<Longrightarrow> getitem xs (int k) = Inr (xs ! k)"
  by (simp add: getitem_def Let_def)

lemma getitem_path:
  assumes "i < nat N_PATHS" "n < nat N_STEPS"
    and "N_PATHS * N_STEPS \<le> int (length d_normals)"
  shows "getitem d_normals (int i + int n * N_PATHS) = Inr (d_normals ! (i + n * nat N_PATHS))"
proof -
  have P: "0 \<le> N_PATHS" and N: "0 \<le> N_STEPS"
    using assms(1,2) by simp_all
  have "int (nat N_PATHS * nat N_STEPS) = N_PATHS * N_STEPS"
    using P N by simp
  with assms(3) have "nat N_PATHS * nat N_STEPS \<le> length d_normals" by linarith
  with path_index_less [OF assms(1,2)] have lt: "i + n * nat N_PATHS < length d_normals"
    by simp
  have eq: "int i + int n * N_PATHS = int (i + n * nat N_PATHS)"
    using P by simp
  show ?thesis unfolding eq using lt by (rule getitem_nat)
qed

lemma cpu_steps_total:
  assumes "\<forall>n \<in> set ns. \<exists>z. getitem d_normals (int i + int n * N_PATHS) = Inr z"
  shows "\<exists>s a. cpu_steps tmp1 tmp3 sigma B d_normals N_PATHS i ns st = Inr (s, a)"
  using assms
proof (induction ns arbitrary: st)
  case Nil
  show ?case by (cases st) simp
next
  case (Cons n ns)
  obtain s a where st: "st = (s, a)" by (cases st)
  from Cons.prems obtain z where z: "getitem d_normals (int i + int n * N_PATHS) = Inr z"
    by auto
  from Cons.prems have "\<forall>n \<in> set ns. \<exists>z. getitem d_normals (int i + int n * N_PATHS) = Inr z"
    by simp
  from Cons.IH [OF this] show ?case
    by (simp add: st z Let_def)
qed

lemma kernels_return:
  assumes "res = cpu_barrier_option d_s T K B S0 sigma mu r d_normals N_STEPS N_PATHS
      \<or> (prange_schedule N_PATHS sched
          \<and> res = cpu_multicore_barrier_option sched d_s T K B S0 sigma mu r d_normals N_STEPS N_PATHS)
      \<or> (grid_schedule gridDim blockDim usched \<and> 0 < gridDim \<and> 0 < blockDim
          \<and> res = gpu_launch usched gridDim blockDim d_s T K B S0 sigma mu r d_normals N_STEPS N_PATHS)"
    and "1 \<le> N_STEPS" and "0 \<le> T"
    and "N_PATHS * N_STEPS \<le> int (length d_normals)"
    and "N_PATHS \<le> int (length d_s)"
  shows "fst res = None"
proof -
  let ?m = "(d_s, d_normals)"
  from prelude_real [OF assms(2,3)] obtain tmp1 tmp2 tmp3 where
    p: "prelude T mu r N_STEPS = Inr (tmp1, tmp2, tmp3)" by blast
  from kernel_real [OF assms(1) p] obtain "is" where
    "is": "set is = set (range1 N_PATHS)"
    and res: "res = for_paths (cpu_path tmp1 tmp2 tmp3 K B S0 sigma N_STEPS N_PATHS) is ?m"
    by blast
  have "path_ok (path_value tmp1 tmp2 tmp3 K B S0 sigma N_STEPS N_PATHS) ?m i"
    if "i \<in> set is" for i
  proof -
    from that have i: "i < nat N_PATHS" by (simp add: "is" range1_def)
    have "\<forall>n \<in> set (range1 N_STEPS). \<exists>z. getitem d_normals (int i + int n * N_PATHS) = Inr z"
      using getitem_path [OF i _ assms(4)] by (simp add: range1_def)
    from cpu_steps_total [OF this] obtain s a where
      "cpu_steps tmp1 tmp3 sigma B d_normals N_PATHS i (range1 N_STEPS) (S0, 0) = Inr (s, a)"
      by blast
    then show ?thesis
      using i assms(5) by (simp add: path_ok_def path_value_def)
  qed
  then have "\<forall>i \<in> set is. path_ok (path_value tmp1 tmp2 tmp3 K B S0 sigma N_STEPS N_PATHS) ?m i"
    by blast
  from for_paths_ok [OF this] show ?thesis
    by (simp add: res cpu_path_store)
qed

lemma cpu_steps_constant:
  assumes "\<forall>n \<in> set ns. getitem d_normals (int i + int n * N_PATHS) = Inr 0"
  shows "cpu_steps 0 tmp3 sigma B d_normals N_PATHS i ns (S0, S0) = Inr (S0, S0)"
  using assms by (induction ns) (simp_all add: Let_def)

lemma cpu_steps_constant_from_start:
  assumes "\<forall>n \<in> set (0 # ns). getitem d_normals (int i + int n * N_PATHS) = Inr 0"
  shows "cpu_steps 0 tmp3 sigma B d_normals N_PATHS i (0 # ns) (S0, 0) = Inr (S0, S0)"
  using assms cpu_steps_constant [of ns d_normals i N_PATHS tmp3 sigma B S0]
  by (simp add: Let_def)

lemma range1_pos: "1 \<le> N \<Longrightarrow> range1 N = 0 # [1..<nat N]"
  by (simp add: range1_def upt_conv_Cons)

lemma for_paths_nonreal_stops:
  assumes "range1 N_STEPS \<noteq> []"
  shows "for_paths (nonreal_path tmp2 K N_STEPS) is m =
     (case is of [] \<Rightarrow> (None, m) | i # js \<Rightarrow> (Some NotANumber, m))"
proof (cases "is")
  case Nil
  then show ?thesis by simp
next
  case (Cons i js)
  have "nonreal_path tmp2 K N_STEPS i m = Inl NotANumber"
    using assms by (cases m) (simp add: nonreal_path_def split: list.splits)
  with Cons show ?thesis by simp
qed







section \<open>The claims\<close>

subsection \<open>C1: the three strategies compute the same output\<close>




subsection \<open>C2: one step of the per-path loop\<close>

text \<open>
  C2. In either inner loop (\<open>cpu_steps\<close> or \<open>gpu_steps\<close>), started from the price \<open>S0\<close> and
  the average \<open>0\<close>: if the loop has not left before step \<open>n\<close> and is there in the state
  \<open>(price, avg)\<close>, then step \<open>n\<close> first moves the price to
  \<open>price' = price + ((mu * T / N_STEPS) * price + sigma * price * sqrt (T / N_STEPS) * z)\<close>,
  with \<open>z\<close> the draw \<open>d_normals[i + n * N_PATHS]\<close>, and then the average to
  \<open>avg' = avg + (price' - avg) / (n + 1)\<close>; the loop over all \<open>N_STEPS\<close> steps goes through
  that state and from there leaves or runs the remaining steps.
\<close>

theorem step_update_matches_formula:
  assumes "steps = cpu_steps \<or> steps = gpu_steps"
    and "prelude T mu r N_STEPS = Inr (tmp1, tmp2, tmp3)"
    and "steps tmp1 tmp3 sigma B d_normals N_PATHS i (range1 (int n)) (S0, 0) = Inr (price, avg)"
    and "n = 0 \<or> B < avg"
    and "getitem d_normals (int i + int n * N_PATHS) = Inr z"
    and "price' = price + ((mu * T / real_of_int N_STEPS) * price
                    + sigma * price * sqrt (T / real_of_int N_STEPS) * z)"
    and "avg' = avg + (price' - avg) / (real n + 1)"
  shows "(n = 0 \<longrightarrow> price = S0 \<and> avg = 0)
       \<and> steps tmp1 tmp3 sigma B d_normals N_PATHS i (range1 (int n + 1)) (S0, 0)
           = Inr (price', avg')
       \<and> (int n < N_STEPS \<longrightarrow>
            steps tmp1 tmp3 sigma B d_normals N_PATHS i (range1 N_STEPS) (S0, 0)
              = (if avg' \<le> B then Inr (price', avg')
                 else steps tmp1 tmp3 sigma B d_normals N_PATHS i [Suc n..<nat N_STEPS]
                        (price', avg')))"
proof -
  from assms(1) have steps: "steps = cpu_steps" by (auto simp: gpu_steps_eq)
  note tmp = prelude_Inr(3,5) [OF assms(2)]
  note run = assms(3) [unfolded steps]
  have init: "n = 0 \<longrightarrow> price = S0 \<and> avg = 0"
    using run by (auto simp: range1_def)
  have one: "cpu_steps tmp1 tmp3 sigma B d_normals N_PATHS i (range1 (int n + 1)) (S0, 0)
      = Inr (price', avg')"
    unfolding range1_Suc
    by (subst cpu_steps_step [OF run assms(4,5)]) (simp add: assms(6,7) tmp Let_def)
  have full: "cpu_steps tmp1 tmp3 sigma B d_normals N_PATHS i (range1 N_STEPS) (S0, 0)
      = (if avg' \<le> B then Inr (price', avg')
         else cpu_steps tmp1 tmp3 sigma B d_normals N_PATHS i [Suc n..<nat N_STEPS]
                (price', avg'))" if "int n < N_STEPS"
    unfolding range1_split [OF that]
    by (subst cpu_steps_step [OF run assms(4,5)]) (simp add: assms(6,7) tmp Let_def)
  from init one full show ?thesis unfolding steps by blast
qed

theorem step_update_matches_formula_witness:
  "prelude 2 1 0 2 = Inr (1, 1, 1)
     \<and> cpu_steps 1 1 1 1 [1, -1, 0, 1] 2 0 (range1 (int 1)) (4, 0) = Inr (12, 12)
     \<and> gpu_steps 1 1 1 1 [1, -1, 0, 1] 2 0 (range1 (int 1)) (4, 0) = Inr (12, 12)
     \<and> getitem [1, -1, 0, 1] (int 0 + int 1 * 2) = Inr 0
     \<and> cpu_steps 1 1 1 1 [1, -1, 0, 1] 2 0 (range1 (int 1 + 1)) (4, 0) = Inr (24, 18)
     \<and> gpu_steps 1 1 1 1 [1, -1, 0, 1] 2 0 (range1 (int 1 + 1)) (4, 0) = Inr (24, 18)
     \<and> cpu_steps 1 1 1 1 [1, -1, 0, 1] 2 0 (range1 2) (4, 0) = Inr (24, 18)"
proof -
  have p: "prelude 2 1 0 2 = Inr (1, 1, 1)"
    by (simp add: prelude_def truediv_def math_sqrt_def)
  have c: "cpu_steps 1 1 1 1 [1, -1, 0, 1] 2 0 (range1 (int 1)) (4, 0) = Inr (12, 12)"
    by (simp add: range1_def getitem_def)
  have g: "gpu_steps 1 1 1 1 [1, -1, 0, 1] 2 0 (range1 (int 1)) (4, 0) = Inr (12, 12)"
    by (simp add: range1_def getitem_def)
  have b: "(1::nat) = 0 \<or> (1::real) < 12" by simp
  have z: "getitem [1, -1, 0, 1] (int 0 + int 1 * 2) = Inr 0"
    by (simp add: getitem_def)
  have p': "(24::real) = 12 + ((1 * 2 / real_of_int 2) * 12 + 1 * 12 * sqrt (2 / real_of_int 2) * 0)"
    by simp
  have a': "(18::real) = 12 + (24 - 12) / (real 1 + 1)" by simp
  have last: "[Suc 1..<nat 2] = []" by simp
  note cpu = step_update_matches_formula [where steps = cpu_steps, OF _ p c b z p' a']
  note gpu = step_update_matches_formula [where steps = gpu_steps, OF _ p g b z p' a']
  have c1: "cpu_steps 1 1 1 1 [1, -1, 0, 1] 2 0 (range1 (int 1 + 1)) (4, 0) = Inr (24, 18)"
    using cpu by blast
  have g1: "gpu_steps 1 1 1 1 [1, -1, 0, 1] 2 0 (range1 (int 1 + 1)) (4, 0) = Inr (24, 18)"
    using gpu by blast
  have "int 1 < 2 \<longrightarrow> cpu_steps 1 1 1 1 [1, -1, 0, 1] 2 0 (range1 2) (4, 0)
      = (if (18::real) \<le> 1 then Inr (24, 18)
         else cpu_steps 1 1 1 1 [1, -1, 0, 1] 2 0 [Suc 1..<nat 2] (24, 18))"
    using cpu by blast
  then have c2: "cpu_steps 1 1 1 1 [1, -1, 0, 1] 2 0 (range1 2) (4, 0) = Inr (24, 18)"
    by (simp only: last) simp
  from p c g z c1 g1 c2 show ?thesis by (intro conjI)
qed

subsection \<open>C3: the stored value is the discounted payoff of the last average\<close>

text \<open>
  C3. When a kernel (serial, multi-core under any schedule, or the CUDA launch under any
  order of the threads of a non-empty grid) returns without an exception, the slot of every
  path \<open>i < N_PATHS\<close> holds \<open>payoff * exp (- r * T)\<close>, where
  \<open>payoff = running_average - K if running_average > K else 0\<close> is computed from the running
  average with which the inner loop of that path ended, whether it ran all its steps or
  left early on a breach of the barrier; there is no separate assignment of zero on a breach.
\<close>

theorem discounted_payoff_stored:
  assumes "res = cpu_barrier_option d_s T K B S0 sigma mu r d_normals N_STEPS N_PATHS
      \<or> (prange_schedule N_PATHS sched
          \<and> res = cpu_multicore_barrier_option sched d_s T K B S0 sigma mu r d_normals N_STEPS N_PATHS)
      \<or> (grid_schedule gridDim blockDim usched \<and> 0 < gridDim \<and> 0 < blockDim
          \<and> res = gpu_launch usched gridDim blockDim d_s T K B S0 sigma mu r d_normals N_STEPS N_PATHS)"
    and "fst res = None" and "int i < N_PATHS"
  shows "\<exists>s_curr running_average.
           cpu_steps (mu * T / real_of_int N_STEPS) (sqrt (T / real_of_int N_STEPS)) sigma B
               d_normals N_PATHS i (range1 N_STEPS) (S0, 0) = Inr (s_curr, running_average)
         \<and> gpu_steps (mu * T / real_of_int N_STEPS) (sqrt (T / real_of_int N_STEPS)) sigma B
               d_normals N_PATHS i (range1 N_STEPS) (S0, 0) = Inr (s_curr, running_average)
         \<and> fst (snd res) ! i
             = (if running_average > K then running_average - K else 0) * exp (- r * T)"
proof (cases "prelude T mu r N_STEPS")
  case (Inr tmps)
  obtain tmp1 tmp2 tmp3 where p: "prelude T mu r N_STEPS = Inr (tmp1, tmp2, tmp3)"
    using Inr by (cases tmps) auto
  from kernel_real [OF assms(1) p] obtain "is" where
    "is": "set is = set (range1 N_PATHS)"
    and res: "res = for_paths (cpu_path tmp1 tmp2 tmp3 K B S0 sigma N_STEPS N_PATHS) is
                (d_s, d_normals)"
    by blast
  have i: "i \<in> set is" using assms(3) by (simp add: "is" range1_def)
  note tmp = prelude_Inr(3-5) [OF p]
  from for_paths_cpu_path_None [OF assms(2) [unfolded res] i] obtain s a where
    sa: "cpu_steps tmp1 tmp3 sigma B d_normals N_PATHS i (range1 N_STEPS) (S0, 0) = Inr (s, a)"
    and out: "fst (snd res) ! i = tmp2 * (if a > K then a - K else 0)"
    unfolding res by blast
  have "cpu_steps (mu * T / real_of_int N_STEPS) (sqrt (T / real_of_int N_STEPS)) sigma B
          d_normals N_PATHS i (range1 N_STEPS) (S0, 0) = Inr (s, a)"
    using sa by (simp only: tmp)
  moreover from this
  have "gpu_steps (mu * T / real_of_int N_STEPS) (sqrt (T / real_of_int N_STEPS)) sigma B
          d_normals N_PATHS i (range1 N_STEPS) (S0, 0) = Inr (s, a)"
    by (simp only: gpu_steps_cpu_steps)
  moreover have "fst (snd res) ! i = (if a > K then a - K else 0) * exp (- r * T)"
    using out by (simp only: tmp mult.commute)
  ultimately show ?thesis by blast
next
  case (Inl e)
  from kernel_nonreal [OF assms(1) Inl] assms(2) obtain "is" where
    "is": "set is = set (range1 N_PATHS)"
    and res: "res = for_paths (nonreal_path (exp (- r * T)) K N_STEPS) is (d_s, d_normals)"
    by auto
  have i: "i \<in> set is" using assms(3) by (simp add: "is" range1_def)
  from for_paths_None_stored [OF assms(2) [unfolded res nonreal_path_store] i] obtain v where
    v: "nonreal_value (exp (- r * T)) K N_STEPS d_normals i = Inr v"
    and out: "fst (snd res) ! i = v"
    unfolding res nonreal_path_store by auto
  from v have empty: "range1 N_STEPS = []" and v': "v = exp (- r * T) * (if 0 > K then 0 - K else 0)"
    by (auto simp: nonreal_value_def split: list.splits)
  have "cpu_steps (mu * T / real_of_int N_STEPS) (sqrt (T / real_of_int N_STEPS)) sigma B
          d_normals N_PATHS i (range1 N_STEPS) (S0, 0) = Inr (S0, 0)"
    by (simp add: empty)
  moreover
  have "gpu_steps (mu * T / real_of_int N_STEPS) (sqrt (T / real_of_int N_STEPS)) sigma B
          d_normals N_PATHS i (range1 N_STEPS) (S0, 0) = Inr (S0, 0)"
    by (simp add: empty)
  moreover have "fst (snd res) ! i = (if (0::real) > K then 0 - K else 0) * exp (- r * T)"
    using out v' by (simp only: mult.commute)
  ultimately show ?thesis by blast
qed

theorem discounted_payoff_stored_witness:
  "cpu_barrier_option [0] 1 2 5 4 1 0 0 [0, 3] 2 1 = (None, ([2], [0, 3]))
     \<and> prange_schedule 1 [0]
     \<and> cpu_multicore_barrier_option [0] [0] 1 2 5 4 1 0 0 [0, 3] 2 1 = (None, ([2], [0, 3]))
     \<and> grid_schedule 1 1 [(0, 0)]
     \<and> gpu_launch [(0, 0)] 1 1 [0] 1 2 5 4 1 0 0 [0, 3] 2 1 = (None, ([2], [0, 3]))
     \<and> cpu_steps (0 * 1 / real_of_int 2) (sqrt (1 / real_of_int 2)) 1 5 [0, 3] 1 0
           (range1 2) (4, 0) = Inr (4, 4)
     \<and> (4::real) \<le> 5
     \<and> fst (snd (cpu_barrier_option [0] 1 2 5 4 1 0 0 [0, 3] 2 1)) ! 0
           = (if (4::real) > 2 then 4 - 2 else 0) * exp (- 0 * 1)
     \<and> fst (snd (cpu_multicore_barrier_option [0] [0] 1 2 5 4 1 0 0 [0, 3] 2 1)) ! 0
           = (if (4::real) > 2 then 4 - 2 else 0) * exp (- 0 * 1)
     \<and> fst (snd (gpu_launch [(0, 0)] 1 1 [0] 1 2 5 4 1 0 0 [0, 3] 2 1)) ! 0
           = (if (4::real) > 2 then 4 - 2 else 0) * exp (- 0 * 1)"
proof -
  have r: "range1 2 = [0, 1]" "range1 1 = [0]" by code_simp+
  have cpu: "cpu_barrier_option [0] 1 2 5 4 1 0 0 [0, 3] 2 1 = (None, ([2], [0, 3]))"
    by (simp add: cpu_barrier_option_def prelude_def truediv_def math_sqrt_def r
        cpu_path_def getitem_def setitem_def)
  have ps: "prange_schedule 1 [0]" by code_simp
  have multi: "cpu_multicore_barrier_option [0] [0] 1 2 5 4 1 0 0 [0, 3] 2 1
      = (None, ([2], [0, 3]))"
    by (simp add: cpu_multicore_barrier_option_def prelude_def truediv_def math_sqrt_def r
        cpu_path_def getitem_def setitem_def)
  have gs: "grid_schedule 1 1 [(0, 0)]" by code_simp
  have gpu: "gpu_launch [(0, 0)] 1 1 [0] 1 2 5 4 1 0 0 [0, 3] 2 1 = (None, ([2], [0, 3]))"
    by (simp add: gpu_launch_def numba_gpu_barrier_option_def prelude_def truediv_def
        math_sqrt_def range3_def r gpu_path_def getitem_def setitem_def)
  have st: "cpu_steps (0 * 1 / real_of_int 2) (sqrt (1 / real_of_int 2)) 1 5 [0, 3] 1 0
      (range1 2) (4, 0) = Inr (4, 4)"
    by (simp add: r getitem_def)
  have i: "int 0 < 1" by simp
  have pay: "fst (snd res) ! 0 = (if (4::real) > 2 then 4 - 2 else 0) * exp (- 0 * 1)"
    if "\<exists>s_curr running_average.
          cpu_steps (0 * 1 / real_of_int 2) (sqrt (1 / real_of_int 2)) 1 5 [0, 3] 1 0
            (range1 2) (4, 0) = Inr (s_curr, running_average)
        \<and> gpu_steps (0 * 1 / real_of_int 2) (sqrt (1 / real_of_int 2)) 1 5 [0, 3] 1 0
            (range1 2) (4, 0) = Inr (s_curr, running_average)
        \<and> fst (snd res) ! 0
            = (if running_average > 2 then running_average - 2 else 0) * exp (- 0 * 1)"
    for res :: "error option \<times> mem"
    using that unfolding st by blast
  have one: "(0::nat) < 1" by simp
  have c1: "fst (snd (cpu_barrier_option [0] 1 2 5 4 1 0 0 [0, 3] 2 1)) ! 0
      = (if (4::real) > 2 then 4 - 2 else 0) * exp (- 0 * 1)"
  proof (rule pay, rule discounted_payoff_stored [where d_s = "[0]" and sched = "[]"
        and usched = "[]" and gridDim = 0 and blockDim = 0, OF _ _ i])
    show "fst (cpu_barrier_option [0] 1 2 5 4 1 0 0 [0, 3] 2 1) = None"
      by (simp only: cpu fst_conv)
  qed blast
  have c2: "fst (snd (cpu_multicore_barrier_option [0] [0] 1 2 5 4 1 0 0 [0, 3] 2 1)) ! 0
      = (if (4::real) > 2 then 4 - 2 else 0) * exp (- 0 * 1)"
  proof (rule pay, rule discounted_payoff_stored [where d_s = "[0]" and sched = "[0]"
        and usched = "[]" and gridDim = 0 and blockDim = 0, OF _ _ i])
    show "fst (cpu_multicore_barrier_option [0] [0] 1 2 5 4 1 0 0 [0, 3] 2 1) = None"
      by (simp only: multi fst_conv)
  qed (use ps in blast)
  have c3: "fst (snd (gpu_launch [(0, 0)] 1 1 [0] 1 2 5 4 1 0 0 [0, 3] 2 1)) ! 0
      = (if (4::real) > 2 then 4 - 2 else 0) * exp (- 0 * 1)"
  proof (rule pay, rule discounted_payoff_stored [where d_s = "[0]" and sched = "[]"
        and usched = "[(0, 0)]" and gridDim = 1 and blockDim = 1, OF _ _ i])
    show "fst (gpu_launch [(0, 0)] 1 1 [0] 1 2 5 4 1 0 0 [0, 3] 2 1) = None"
      by (simp only: gpu fst_conv)
  qed (use gs one in blast)
  from cpu ps multi gs gpu st c1 c2 c3 show ?thesis by simp
qed

subsection \<open>C4: the loop ends at the first breach of the barrier\<close>

text \<open>
  C4. If after step \<open>n\<close> the running average is at or below the barrier \<open>B\<close>, the loop over
  all \<open>N_STEPS\<close> steps ends in the state it has after step \<open>n\<close>: no later step updates the
  price or the average. The later draws are not even read: the result is the same for
  every draw buffer that agrees on the draws of the steps \<open>0 .. n\<close>, also one that is too
  short to hold the later ones. The loop returns a state, not an error.
\<close>

theorem barrier_breach_exits_loop:
  assumes "steps = cpu_steps \<or> steps = gpu_steps"
    and "steps tmp1 tmp3 sigma B d_normals N_PATHS i (range1 (int n + 1)) (S0, 0)
           = Inr (price, avg)"
    and "avg \<le> B" and "int n < N_STEPS"
  shows "steps tmp1 tmp3 sigma B d_normals N_PATHS i (range1 N_STEPS) (S0, 0) = Inr (price, avg)
       \<and> (\<forall>d_normals'.
            (\<forall>k \<le> n. getitem d_normals' (int i + int k * N_PATHS)
                        = getitem d_normals (int i + int k * N_PATHS)) \<longrightarrow>
            steps tmp1 tmp3 sigma B d_normals' N_PATHS i (range1 N_STEPS) (S0, 0)
              = Inr (price, avg))"
proof -
  from assms(1) have steps: "steps = cpu_steps" by (auto simp: gpu_steps_eq)
  note run = assms(2) [unfolded steps]
  have here: "cpu_steps tmp1 tmp3 sigma B d_normals N_PATHS i (range1 N_STEPS) (S0, 0)
      = Inr (price, avg)"
    using run assms(3,4) by (rule cpu_steps_exit)
  have other: "cpu_steps tmp1 tmp3 sigma B d_normals' N_PATHS i (range1 N_STEPS) (S0, 0)
      = Inr (price, avg)"
    if "\<forall>k \<le> n. getitem d_normals' (int i + int k * N_PATHS)
                  = getitem d_normals (int i + int k * N_PATHS)" for d_normals'
  proof -
    have "cpu_steps tmp1 tmp3 sigma B d_normals' N_PATHS i (range1 (int n + 1)) (S0, 0)
        = Inr (price, avg)"
      using cpu_steps_prefix_cong [OF that] run by simp
    then show ?thesis using assms(3,4) by (rule cpu_steps_exit)
  qed
  from here other show ?thesis unfolding steps by blast
qed

theorem barrier_breach_exits_loop_witness:
  "cpu_steps 0 1 1 5 [-1, 7, 8] 1 0 (range1 (int 0 + 1)) (4, 0) = Inr (0, 0)
     \<and> (0::real) \<le> 5 \<and> int 0 < 3
     \<and> cpu_steps 0 1 1 5 [-1, 7, 8] 1 0 (range1 3) (4, 0) = Inr (0, 0)
     \<and> gpu_steps 0 1 1 5 [-1, 7, 8] 1 0 (range1 3) (4, 0) = Inr (0, 0)
     \<and> cpu_steps 0 1 1 5 [-1] 1 0 (range1 3) (4, 0) = Inr (0, 0)"
proof -
  have c: "cpu_steps 0 1 1 5 [-1, 7, 8] 1 0 (range1 (int 0 + 1)) (4, 0) = Inr (0, 0)"
    by (simp add: range1_def getitem_def)
  have g: "gpu_steps 0 1 1 5 [-1, 7, 8] 1 0 (range1 (int 0 + 1)) (4, 0) = Inr (0, 0)"
    by (simp add: range1_def getitem_def)
  have b: "(0::real) \<le> 5" and n: "int 0 < 3" by simp_all
  have same: "\<forall>k \<le> (0::nat). getitem [-1] (int 0 + int k * 1) = getitem [-1, 7, 8] (int 0 + int k * 1)"
    by (simp add: getitem_def)
  note cpu = barrier_breach_exits_loop [where steps = cpu_steps, OF _ c b n]
  note gpu = barrier_breach_exits_loop [where steps = gpu_steps, OF _ g b n]
  have c1: "cpu_steps 0 1 1 5 [-1, 7, 8] 1 0 (range1 3) (4, 0) = Inr (0, 0)"
    using cpu by blast
  have g1: "gpu_steps 0 1 1 5 [-1, 7, 8] 1 0 (range1 3) (4, 0) = Inr (0, 0)"
    using gpu by blast
  have c2: "cpu_steps 0 1 1 5 [-1] 1 0 (range1 3) (4, 0) = Inr (0, 0)"
    using cpu same by blast
  from c b n c1 g1 c2 show ?thesis by (intro conjI)
qed

subsection \<open>C5: the strided loops of the launch cover every path once\<close>

text \<open>
  C5. When the CUDA kernel is launched with
  \<open>number_of_blocks = (N_PATHS - 1) // number_of_threads + 1\<close> blocks of
  \<open>number_of_threads\<close> threads (or on any other grid of at least one thread), the strided
  loops \<^verbatim>\<open>range(ii, N_PATHS, stride)\<close> of all threads together visit every path index \<open>0 .. N_PATHS - 1\<close> exactly once, whatever the
  order of the threads; each thread visits \<open>\<lfloor>N_PATHS / units\<rfloor>\<close> or \<open>\<lceil>N_PATHS / units\<rceil>\<close>
  paths; and the launch is the loop body run once on each visited index, so that every
  output slot is written exactly once.
\<close>

theorem strided_launch_covers_paths:
  assumes "(1 \<le> N_PATHS
        \<and> number_of_blocks N_PATHS (int number_of_threads) = Inr (int gridDim))
      \<or> 0 < gridDim * number_of_threads"
    and "grid_schedule gridDim number_of_threads sched"
  shows "mset (concat (map (unit_paths gridDim number_of_threads N_PATHS) sched))
           = mset (range1 N_PATHS)
       \<and> (\<forall>u \<in> set sched.
            length (unit_paths gridDim number_of_threads N_PATHS u)
              = nat N_PATHS div (gridDim * number_of_threads)
          \<or> length (unit_paths gridDim number_of_threads N_PATHS u)
              = (nat N_PATHS + gridDim * number_of_threads - 1) div (gridDim * number_of_threads))
       \<and> (\<forall>tmp1 tmp2 tmp3. prelude T mu r N_STEPS = Inr (tmp1, tmp2, tmp3) \<longrightarrow>
            gpu_launch sched gridDim number_of_threads
                d_s T K B S0 sigma mu r d_normals N_STEPS N_PATHS
              = for_paths (gpu_path tmp1 tmp2 tmp3 K B S0 sigma N_STEPS N_PATHS)
                  (concat (map (unit_paths gridDim number_of_threads N_PATHS) sched))
                  (d_s, d_normals))"
proof -
  let ?U = "gridDim * number_of_threads"
  have U: "0 < ?U"
    using assms(1) number_of_blocks_pos [of N_PATHS number_of_threads gridDim] by blast
  have cover: "mset (concat (map (unit_paths gridDim number_of_threads N_PATHS) sched))
      = mset (range1 N_PATHS)"
    using U assms(2) by (rule mset_unit_paths)
  have count: "length (unit_paths gridDim number_of_threads N_PATHS u) = nat N_PATHS div ?U
      \<or> length (unit_paths gridDim number_of_threads N_PATHS u)
          = (nat N_PATHS + ?U - 1) div ?U" if "u \<in> set sched" for u
  proof -
    have "set sched = set (grid_units gridDim number_of_threads)"
      using assms(2) by (auto simp: grid_schedule_def dest: mset_eq_setD)
    with that have "snd u + fst u * number_of_threads < ?U"
      by (simp add: grid_units_index_less)
    then show ?thesis
      using U by (simp only: unit_paths_strided [OF U] length_strided_bounds)
  qed
  have launch: "gpu_launch sched gridDim number_of_threads
        d_s T K B S0 sigma mu r d_normals N_STEPS N_PATHS
      = for_paths (gpu_path tmp1 tmp2 tmp3 K B S0 sigma N_STEPS N_PATHS)
          (concat (map (unit_paths gridDim number_of_threads N_PATHS) sched)) (d_s, d_normals)"
    if "prelude T mu r N_STEPS = Inr (tmp1, tmp2, tmp3)" for tmp1 tmp2 tmp3
    using gpu_launch_for_paths [OF that U] by (simp add: gpu_path_cpu_path)
  from cover count launch show ?thesis by blast
qed



theorem strided_launch_covers_paths_witness:
  "(1::int) \<le> 5 \<and> number_of_blocks 5 (int 2) = Inr (int 3)
     \<and> grid_schedule 3 2 [(2, 1), (2, 0), (1, 1), (1, 0), (0, 1), (0, 0)]
     \<and> mset (concat (map (unit_paths 3 2 5) [(2, 1), (2, 0), (1, 1), (1, 0), (0, 1), (0, 0)]))
           = mset (range1 5)
     \<and> length (unit_paths 3 2 5 (2, 1)) = 0 \<and> length (unit_paths 3 2 5 (0, 1)) = 1
     \<and> gpu_launch [(2, 1), (2, 0), (1, 1), (1, 0), (0, 1), (0, 0)] 3 2
           [9, 9, 9, 9, 9] 1 2 1 4 1 0 0 [1, 0, 0, 0, -1] 1 5
         = (None, ([6, 2, 2, 2, 0], [1, 0, 0, 0, -1]))
     \<and> (0::nat) < 1 * 2 \<and> grid_schedule 1 2 [(0, 1), (0, 0)]
     \<and> mset (concat (map (unit_paths 1 2 5) [(0, 1), (0, 0)])) = mset (range1 5)
     \<and> unit_paths 1 2 5 (0, 0) = [0, 2, 4] \<and> unit_paths 1 2 5 (0, 1) = [1, 3]"
proof -
  let ?sched = "[(2, 1), (2, 0), (1, 1), (1, 0), (0, 1), (0, 0)] :: (nat \<times> nat) list"
  have h2: "(1::int) \<le> 5" by simp
  have h3: "number_of_blocks 5 (int 2) = Inr (int 3)" by (simp add: number_of_blocks_def)
  have h4: "grid_schedule 3 2 ?sched" by code_simp
  have p: "prelude 1 0 0 1 = Inr (0, 1, 1)"
    by (simp add: prelude_def truediv_def math_sqrt_def)
  have paths: "concat (map (unit_paths 3 2 5) ?sched) = [4, 3, 2, 1, 0]" by code_simp
  have len: "length (unit_paths 3 2 5 (2, 1)) = 0" "length (unit_paths 3 2 5 (0, 1)) = 1"
    by code_simp+
  have run: "for_paths (gpu_path 0 1 1 2 1 4 1 1 5) [4, 3, 2, 1, 0]
      ([9, 9, 9, 9, 9], [1, 0, 0, 0, -1]) = (None, ([6, 2, 2, 2, 0], [1, 0, 0, 0, -1]))"
    by (simp add: gpu_path_def range1_def getitem_def setitem_def)
  have h23: "((1::int) \<le> 5 \<and> number_of_blocks 5 (int 2) = Inr (int 3)) \<or> (0::nat) < 3 * 2"
    using h2 h3 by blast
  note cover =
    strided_launch_covers_paths [OF h23 h4, of 1 0 0 1 "[9, 9, 9, 9, 9]" 2 1 4 1
      "[1, 0, 0, 0, -1]"]
  have h5: "(0::nat) < 1 * 2" by simp
  have h6: "grid_schedule 1 2 [(0, 1), (0, 0)]" by code_simp
  have h56: "((1::int) \<le> 5 \<and> number_of_blocks 5 (int 2) = Inr (int 1)) \<or> (0::nat) < 1 * 2"
    using h5 by blast
  have c4: "mset (concat (map (unit_paths 1 2 5) [(0, 1), (0, 0)])) = mset (range1 5)"
    using strided_launch_covers_paths [OF h56 h6] by blast
  have len2: "unit_paths 1 2 5 (0, 0) = [0, 2, 4]" "unit_paths 1 2 5 (0, 1) = [1, 3]"
    by code_simp+
  have c1: "mset (concat (map (unit_paths 3 2 5) ?sched)) = mset (range1 5)"
    using cover by blast
  have "gpu_launch ?sched 3 2 [9, 9, 9, 9, 9] 1 2 1 4 1 0 0 [1, 0, 0, 0, -1] 1 5
      = for_paths (gpu_path 0 1 1 2 1 4 1 1 5) (concat (map (unit_paths 3 2 5) ?sched))
          ([9, 9, 9, 9, 9], [1, 0, 0, 0, -1])"
    using cover p by blast
  then have c3: "gpu_launch ?sched 3 2 [9, 9, 9, 9, 9] 1 2 1 4 1 0 0 [1, 0, 0, 0, -1] 1 5
      = (None, ([6, 2, 2, 2, 0], [1, 0, 0, 0, -1]))"
    by (simp only: paths run)
  from h2 h3 h4 c1 len c3 h5 h6 c4 len2 show ?thesis by (intro conjI)
qed

subsection \<open>C6: what the kernels do with arguments that are out of range\<close>




subsection \<open>C7: zero draws and zero drift keep the price at the spot\<close>

text \<open>
  C7. If every draw is \<open>0\<close> and the drift \<open>mu\<close> is \<open>0\<close>, then in a well-formed call
  (\<open>N_STEPS \<ge> 1\<close>, \<open>T \<ge> 0\<close>, buffers of sufficient length) the price and the running average
  of every path are the spot \<open>S0\<close> after every step, so that the test of the barrier
  \<open>running_average \<le> B\<close> succeeds exactly when \<open>S0 \<le> B\<close>; every kernel returns, and the
  slot of the path holds \<open>max (S0 - K) 0 * exp (- r * T)\<close>, in particular when the barrier
  is never breached.
\<close>

theorem zero_draws_zero_drift:
  assumes "res = cpu_barrier_option d_s T K B S0 sigma mu r d_normals N_STEPS N_PATHS
      \<or> (prange_schedule N_PATHS sched
          \<and> res = cpu_multicore_barrier_option sched d_s T K B S0 sigma mu r d_normals N_STEPS N_PATHS)
      \<or> (grid_schedule gridDim blockDim usched \<and> 0 < gridDim \<and> 0 < blockDim
          \<and> res = gpu_launch usched gridDim blockDim d_s T K B S0 sigma mu r d_normals N_STEPS N_PATHS)"
    and "\<forall>z \<in> set d_normals. z = 0" and "mu = 0"
    and "1 \<le> N_STEPS" and "0 \<le> T"
    and "N_PATHS * N_STEPS \<le> int (length d_normals)"
    and "N_PATHS \<le> int (length d_s)"
    and "i < nat N_PATHS"
  shows "(\<forall>n. n < nat N_STEPS \<longrightarrow>
            cpu_steps (mu * T / real_of_int N_STEPS) (sqrt (T / real_of_int N_STEPS)) sigma B
                d_normals N_PATHS i (range1 (int n + 1)) (S0, 0) = Inr (S0, S0))
       \<and> (\<exists>price avg.
            cpu_steps (mu * T / real_of_int N_STEPS) (sqrt (T / real_of_int N_STEPS)) sigma B
                d_normals N_PATHS i (range1 N_STEPS) (S0, 0) = Inr (price, avg)
            \<and> price = S0 \<and> (avg \<le> B \<longleftrightarrow> S0 \<le> B))
       \<and> fst res = None
       \<and> fst (snd res) ! i = max (S0 - K) 0 * exp (- r * T)"
proof -
  let ?tmp3 = "sqrt (T / real_of_int N_STEPS)"
  have draws: "getitem d_normals (int i + int n * N_PATHS) = Inr 0" if "n < nat N_STEPS" for n
  proof -
    have g: "getitem d_normals (int i + int n * N_PATHS) = Inr (d_normals ! (i + n * nat N_PATHS))"
      using assms(8) that assms(6) by (rule getitem_path)
    have P: "0 \<le> N_PATHS" and N: "0 \<le> N_STEPS" using assms(8) that by simp_all
    have "int (nat N_PATHS * nat N_STEPS) = N_PATHS * N_STEPS" using P N by simp
    with assms(6) have "nat N_PATHS * nat N_STEPS \<le> length d_normals" by linarith
    with path_index_less [OF assms(8) that] have "i + n * nat N_PATHS < length d_normals"
      by simp
    then have "d_normals ! (i + n * nat N_PATHS) \<in> set d_normals" by (rule nth_mem)
    with assms(2) g show ?thesis by simp
  qed
  have steps: "cpu_steps 0 ?tmp3 sigma B d_normals N_PATHS i (range1 N) (S0, 0) = Inr (S0, S0)"
    if "1 \<le> N" "N \<le> N_STEPS" for N
  proof -
    have "\<forall>n \<in> set (0 # [1..<nat N]). getitem d_normals (int i + int n * N_PATHS) = Inr 0"
    proof
      fix n assume "n \<in> set (0 # [1..<nat N])"
      then have "n < nat N_STEPS" using that by auto
      then show "getitem d_normals (int i + int n * N_PATHS) = Inr 0" by (rule draws)
    qed
    then show ?thesis
      unfolding range1_pos [OF that(1)] by (rule cpu_steps_constant_from_start)
  qed
  have tmp1: "mu * T / real_of_int N_STEPS = 0" using assms(3) by simp
  have prefix: "cpu_steps (mu * T / real_of_int N_STEPS) ?tmp3 sigma B d_normals N_PATHS i
      (range1 (int n + 1)) (S0, 0) = Inr (S0, S0)" if "n < nat N_STEPS" for n
    unfolding tmp1 using that by (intro steps) auto
  have full: "cpu_steps (mu * T / real_of_int N_STEPS) ?tmp3 sigma B d_normals N_PATHS i
      (range1 N_STEPS) (S0, 0) = Inr (S0, S0)"
    unfolding tmp1 using assms(4) by (intro steps) auto
  have ok: "fst res = None"
    using assms(1,4,5,6,7) by (rule kernels_return)
  from prelude_real [OF assms(4,5)] obtain tmp1' tmp2 tmp3 where
    p: "prelude T mu r N_STEPS = Inr (tmp1', tmp2, tmp3)" by blast
  from kernel_real [OF assms(1) p] obtain "is" where
    "is": "set is = set (range1 N_PATHS)"
    and res: "res = for_paths (cpu_path tmp1' tmp2 tmp3 K B S0 sigma N_STEPS N_PATHS) is
                (d_s, d_normals)"
    by blast
  note tmp = prelude_Inr(3-5) [OF p]
  have i: "i \<in> set is" using assms(8) by (simp add: "is" range1_def)
  from for_paths_cpu_path_None [OF ok [unfolded res] i] obtain s a where
    sa: "cpu_steps tmp1' tmp3 sigma B d_normals N_PATHS i (range1 N_STEPS) (S0, 0) = Inr (s, a)"
    and out: "fst (snd res) ! i = tmp2 * (if a > K then a - K else 0)"
    unfolding res by blast
  from sa full have "a = S0" by (simp add: tmp)
  with out have "fst (snd res) ! i = max (S0 - K) 0 * exp (- r * T)"
    by (simp add: tmp max_def)
  with prefix full ok show ?thesis by blast
qed

theorem zero_draws_zero_drift_witness:
  "set [0, 0 :: real] = {0} \<and> (1::int) \<le> 2 \<and> (0::real) \<le> 1
     \<and> 1 * 2 \<le> int (length [0, 0 :: real]) \<and> 1 \<le> int (length [0 :: real])
     \<and> (0::nat) < nat 1 \<and> prange_schedule 1 [0] \<and> grid_schedule 1 1 [(0, 0)]
     \<and> cpu_steps (0 * 1 / real_of_int 2) (sqrt (1 / real_of_int 2)) 1 3 [0, 0] 1 0
           (range1 (int 1 + 1)) (4, 0) = Inr (4, 4)
     \<and> fst (cpu_barrier_option [0] 1 2 3 4 1 0 0 [0, 0] 2 1) = None
     \<and> fst (snd (cpu_barrier_option [0] 1 2 3 4 1 0 0 [0, 0] 2 1)) ! 0
           = max (4 - 2) 0 * exp (- 0 * 1)
     \<and> fst (snd (cpu_multicore_barrier_option [0] [0] 1 2 3 4 1 0 0 [0, 0] 2 1)) ! 0
           = max (4 - 2) 0 * exp (- 0 * 1)
     \<and> fst (snd (gpu_launch [(0, 0)] 1 1 [0] 1 2 5 4 1 0 0 [0, 0] 2 1)) ! 0
           = max (4 - 2) 0 * exp (- 0 * 1)"
proof -
  have h2: "\<forall>z \<in> set [0, 0 :: real]. z = 0" and h3: "(0::real) = 0"
    and h4: "(1::int) \<le> 2" and h5: "(0::real) \<le> 1"
    and h6: "1 * 2 \<le> int (length [0, 0 :: real])" and h7: "1 \<le> int (length [0 :: real])"
    and h8: "(0::nat) < nat 1" and one: "(0::nat) < 1" and n: "(1::nat) < nat 2"
    by simp_all
  have ps: "prange_schedule 1 [0]" by code_simp
  have gs: "grid_schedule 1 1 [(0, 0)]" by code_simp
  note cpu = zero_draws_zero_drift
    [where res = "cpu_barrier_option [0] 1 2 3 4 1 0 0 [0, 0] 2 1" and sched = "[]"
      and usched = "[]" and gridDim = 0 and blockDim = 0, OF _ h2 h3 h4 h5 h6 h7 h8]
  note multi = zero_draws_zero_drift
    [where res = "cpu_multicore_barrier_option [0] [0] 1 2 3 4 1 0 0 [0, 0] 2 1"
      and sched = "[0]" and usched = "[]" and gridDim = 0 and blockDim = 0,
      OF _ h2 h3 h4 h5 h6 h7 h8]
  note gpu = zero_draws_zero_drift
    [where res = "gpu_launch [(0, 0)] 1 1 [0] 1 2 5 4 1 0 0 [0, 0] 2 1" and sched = "[]"
      and usched = "[(0, 0)]" and gridDim = 1 and blockDim = 1, OF _ h2 h3 h4 h5 h6 h7 h8]
  have c: "(\<forall>n. n < nat 2 \<longrightarrow>
              cpu_steps (0 * 1 / real_of_int 2) (sqrt (1 / real_of_int 2)) 1 3 [0, 0] 1 0
                (range1 (int n + 1)) (4, 0) = Inr (4, 4))
      \<and> (\<exists>price avg.
            cpu_steps (0 * 1 / real_of_int 2) (sqrt (1 / real_of_int 2)) 1 3 [0, 0] 1 0
                (range1 2) (4, 0) = Inr (price, avg)
            \<and> price = 4 \<and> (avg \<le> 3 \<longleftrightarrow> (4::real) \<le> 3))
      \<and> fst (cpu_barrier_option [0] 1 2 3 4 1 0 0 [0, 0] 2 1) = None
      \<and> fst (snd (cpu_barrier_option [0] 1 2 3 4 1 0 0 [0, 0] 2 1)) ! 0
            = max (4 - 2) 0 * exp (- 0 * 1)"
    by (rule cpu) blast
  have m: "fst (snd (cpu_multicore_barrier_option [0] [0] 1 2 3 4 1 0 0 [0, 0] 2 1)) ! 0
      = max (4 - 2) 0 * exp (- 0 * 1)"
    using multi ps by blast
  have g: "fst (snd (gpu_launch [(0, 0)] 1 1 [0] 1 2 5 4 1 0 0 [0, 0] 2 1)) ! 0
      = max (4 - 2) 0 * exp (- 0 * 1)"
    using gpu gs one by blast
  from c n have st: "cpu_steps (0 * 1 / real_of_int 2) (sqrt (1 / real_of_int 2)) 1 3 [0, 0] 1 0
      (range1 (int 1 + 1)) (4, 0) = Inr (4, 4)"
    by blast
  have z: "set [0, 0 :: real] = {0}" by simp
  from z h4 h5 h6 h7 h8 ps gs st c m g show ?thesis by blast
qed

subsection \<open>C8: a breach at the first step\<close>

text \<open>
  A spot below the barrier does not by itself make a path breach at step \<open>0\<close>: the barrier
  is tested against the running average after the first price update, and that update can
  lift the price above the barrier. With \<open>S0 = 1 < B = 2\<close>, \<open>sigma = 1\<close>, \<open>T = N_STEPS = 2\<close> and
  a first draw of \<open>2\<close> the first average is \<open>3\<close>, the loop goes on, and the slot holds \<open>3\<close>,
  not \<open>max (S0 - K) 0 = 1\<close>.
\<close>

theorem spot_below_barrier_counterexample:
  "(1::real) < 2
     \<and> cpu_steps (0 * 2 / real_of_int 2) (sqrt (2 / real_of_int 2)) 1 2 [2, 0] 1 0
           (range1 1) (1, 0) = Inr (3, 3)
     \<and> \<not> (3::real) \<le> 2
     \<and> cpu_barrier_option [0] 2 0 2 1 1 0 0 [2, 0] 2 1 = (None, ([3], [2, 0]))
     \<and> (3::real) \<noteq> max (1 - 0) 0 * exp (- 0 * 2)"
proof -
  have r: "range1 2 = [0, 1]" "range1 1 = [0]" by code_simp+
  have st: "cpu_steps (0 * 2 / real_of_int 2) (sqrt (2 / real_of_int 2)) 1 2 [2, 0] 1 0
      (range1 1) (1, 0) = Inr (3, 3)"
    by (simp add: r getitem_def)
  have cpu: "cpu_barrier_option [0] 2 0 2 1 1 0 0 [2, 0] 2 1 = (None, ([3], [2, 0]))"
    by (simp add: cpu_barrier_option_def prelude_def truediv_def math_sqrt_def r
        cpu_path_def getitem_def setitem_def)
  from st cpu show ?thesis by simp
qed

text \<open>
  C8, as the kernels have it. In a well-formed call (\<open>N_STEPS \<ge> 1\<close>, \<open>T \<ge> 0\<close>, buffers of
  sufficient length), if the first simulated price of the path \<open>i\<close>,
  \<open>s1 = S0 + ((mu * T / N_STEPS) * S0 + sigma * S0 * sqrt (T / N_STEPS) * d_normals[i])\<close>,
  is at or below the barrier, then the path breaches at step \<open>0\<close>: the loop leaves after the
  first update of the running average, whose value is \<open>s1\<close>, and the slot of the path holds
  \<open>max (s1 - K) 0 * exp (- r * T)\<close>.
\<close>

theorem first_price_below_barrier:
  assumes "res = cpu_barrier_option d_s T K B S0 sigma mu r d_normals N_STEPS N_PATHS
      \<or> (prange_schedule N_PATHS sched
          \<and> res = cpu_multicore_barrier_option sched d_s T K B S0 sigma mu r d_normals N_STEPS N_PATHS)
      \<or> (grid_schedule gridDim blockDim usched \<and> 0 < gridDim \<and> 0 < blockDim
          \<and> res = gpu_launch usched gridDim blockDim d_s T K B S0 sigma mu r d_normals N_STEPS N_PATHS)"
    and "1 \<le> N_STEPS" and "0 \<le> T"
    and "N_PATHS * N_STEPS \<le> int (length d_normals)"
    and "N_PATHS \<le> int (length d_s)"
    and "i < nat N_PATHS"
    and "s1 = S0 + ((mu * T / real_of_int N_STEPS) * S0
                 + sigma * S0 * sqrt (T / real_of_int N_STEPS) * (d_normals ! i))"
    and "s1 \<le> B"
  shows "cpu_steps (mu * T / real_of_int N_STEPS) (sqrt (T / real_of_int N_STEPS)) sigma B
             d_normals N_PATHS i (range1 1) (S0, 0) = Inr (s1, s1)
       \<and> cpu_steps (mu * T / real_of_int N_STEPS) (sqrt (T / real_of_int N_STEPS)) sigma B
             d_normals N_PATHS i (range1 N_STEPS) (S0, 0) = Inr (s1, s1)
       \<and> fst res = None
       \<and> fst (snd res) ! i = max (s1 - K) 0 * exp (- r * T)"
proof -
  let ?tmp1 = "mu * T / real_of_int N_STEPS"
  let ?tmp3 = "sqrt (T / real_of_int N_STEPS)"
  have "0 < nat N_STEPS" using assms(2) by simp
  from getitem_path [OF assms(6) this assms(4)]
  have z: "getitem d_normals (int i + int 0 * N_PATHS) = Inr (d_normals ! i)" by simp
  have first: "cpu_steps ?tmp1 ?tmp3 sigma B d_normals N_PATHS i (0 # ns) (S0, 0) = Inr (s1, s1)"
    for ns
    using z assms(8) unfolding assms(7) by (simp add: Let_def)
  have one: "cpu_steps ?tmp1 ?tmp3 sigma B d_normals N_PATHS i (range1 1) (S0, 0) = Inr (s1, s1)"
    using first [of "[]"] by (simp add: range1_def)
  have full: "cpu_steps ?tmp1 ?tmp3 sigma B d_normals N_PATHS i (range1 N_STEPS) (S0, 0)
      = Inr (s1, s1)"
    unfolding range1_pos [OF assms(2)] by (rule first)
  have ok: "fst res = None"
    using assms(1,2,3,4,5) by (rule kernels_return)
  from prelude_real [OF assms(2,3)] obtain tmp1 tmp2 tmp3 where
    p: "prelude T mu r N_STEPS = Inr (tmp1, tmp2, tmp3)" by blast
  from kernel_real [OF assms(1) p] obtain "is" where
    "is": "set is = set (range1 N_PATHS)"
    and res: "res = for_paths (cpu_path tmp1 tmp2 tmp3 K B S0 sigma N_STEPS N_PATHS) is
                (d_s, d_normals)"
    by blast
  note tmp = prelude_Inr(3-5) [OF p]
  have i: "i \<in> set is" using assms(6) by (simp add: "is" range1_def)
  from for_paths_cpu_path_None [OF ok [unfolded res] i] obtain s a where
    sa: "cpu_steps tmp1 tmp3 sigma B d_normals N_PATHS i (range1 N_STEPS) (S0, 0) = Inr (s, a)"
    and out: "fst (snd res) ! i = tmp2 * (if a > K then a - K else 0)"
    unfolding res by blast
  from sa full have "a = s1" by (simp add: tmp)
  with out have "fst (snd res) ! i = max (s1 - K) 0 * exp (- r * T)"
    by (simp add: tmp max_def)
  with one full ok show ?thesis by blast
qed

theorem first_price_below_barrier_witness:
  "(1::int) \<le> 2 \<and> (0::real) \<le> 2 \<and> 1 * 2 \<le> int (length [-1, 9 :: real])
     \<and> 1 \<le> int (length [0 :: real]) \<and> (0::nat) < nat 1
     \<and> (1::real) = 2 + ((0 * 2 / real_of_int 2) * 2
                      + (1/2) * 2 * sqrt (2 / real_of_int 2) * ([-1, 9] ! 0))
     \<and> (1::real) \<le> 4
     \<and> prange_schedule 1 [0] \<and> grid_schedule 1 1 [(0, 0)]
     \<and> cpu_steps (0 * 2 / real_of_int 2) (sqrt (2 / real_of_int 2)) (1/2) 4
           [-1, 9] 1 0 (range1 2) (2, 0) = Inr (1, 1)
     \<and> fst (cpu_barrier_option [0] 2 0 4 2 (1/2) 0 0 [-1, 9] 2 1) = None
     \<and> fst (snd (cpu_barrier_option [0] 2 0 4 2 (1/2) 0 0 [-1, 9] 2 1)) ! 0
           = max (1 - 0) 0 * exp (- 0 * 2)
     \<and> fst (snd (cpu_multicore_barrier_option [0] [0] 2 0 4 2 (1/2) 0 0 [-1, 9] 2 1)) ! 0
           = max (1 - 0) 0 * exp (- 0 * 2)
     \<and> fst (snd (gpu_launch [(0, 0)] 1 1 [0] 2 0 4 2 (1/2) 0 0 [-1, 9] 2 1)) ! 0
           = max (1 - 0) 0 * exp (- 0 * 2)"
proof -
  have h2: "(1::int) \<le> 2" and h3: "(0::real) \<le> 2"
    and h4: "1 * 2 \<le> int (length [-1, 9 :: real])" and h5: "1 \<le> int (length [0 :: real])"
    and h6: "(0::nat) < nat 1"
    and h7: "(1::real) = 2 + ((0 * 2 / real_of_int 2) * 2
                      + (1/2) * 2 * sqrt (2 / real_of_int 2) * ([-1, 9] ! 0))"
    and h8: "(1::real) \<le> 4" and one: "(0::nat) < 1"
    by simp_all
  have ps: "prange_schedule 1 [0]" by code_simp
  have gs: "grid_schedule 1 1 [(0, 0)]" by code_simp
  note cpu = first_price_below_barrier
    [where res = "cpu_barrier_option [0] 2 0 4 2 (1/2) 0 0 [-1, 9] 2 1" and sched = "[]"
      and usched = "[]" and gridDim = 0 and blockDim = 0, OF _ h2 h3 h4 h5 h6 h7 h8]
  note multi = first_price_below_barrier
    [where res = "cpu_multicore_barrier_option [0] [0] 2 0 4 2 (1/2) 0 0 [-1, 9] 2 1"
      and sched = "[0]" and usched = "[]" and gridDim = 0 and blockDim = 0,
      OF _ h2 h3 h4 h5 h6 h7 h8]
  note gpu = first_price_below_barrier
    [where res = "gpu_launch [(0, 0)] 1 1 [0] 2 0 4 2 (1/2) 0 0 [-1, 9] 2 1" and sched = "[]"
      and usched = "[(0, 0)]" and gridDim = 1 and blockDim = 1, OF _ h2 h3 h4 h5 h6 h7 h8]
  have c: "cpu_steps (0 * 2 / real_of_int 2) (sqrt (2 / real_of_int 2)) (1/2) 4
             [-1, 9] 1 0 (range1 1) (2, 0) = Inr (1, 1)
      \<and> cpu_steps (0 * 2 / real_of_int 2) (sqrt (2 / real_of_int 2)) (1/2) 4
             [-1, 9] 1 0 (range1 2) (2, 0) = Inr (1, 1)
      \<and> fst (cpu_barrier_option [0] 2 0 4 2 (1/2) 0 0 [-1, 9] 2 1) = None
      \<and> fst (snd (cpu_barrier_option [0] 2 0 4 2 (1/2) 0 0 [-1, 9] 2 1)) ! 0
            = max (1 - 0) 0 * exp (- 0 * 2)"
    by (rule cpu) blast
  have m: "fst (snd (cpu_multicore_barrier_option [0] [0] 2 0 4 2 (1/2) 0 0 [-1, 9] 2 1)) ! 0
      = max (1 - 0) 0 * exp (- 0 * 2)"
    using multi ps by blast
  have g: "fst (snd (gpu_launch [(0, 0)] 1 1 [0] 2 0 4 2 (1/2) 0 0 [-1, 9] 2 1)) ! 0
      = max (1 - 0) 0 * exp (- 0 * 2)"
    using gpu gs one by blast
  from h2 h3 h4 h5 h6 h7 h8 ps gs c m g show ?thesis by blast
qed

subsection \<open>C9: the kernels write the output slots and nothing else\<close>

text \<open>
  C9. When the output buffer \<open>d_s\<close> has the slots \<open>0 .. N_PATHS - 1\<close>, that is at least
  \<open>N_PATHS\<close> elements, then whatever a kernel does (serial, multi-core under any schedule,
  the CUDA launch under any order of the threads of a non-empty grid), the draw buffer
  \<open>d_normals\<close> holds afterwards what it held before, the output buffer keeps its length, and
  every slot of \<open>d_s\<close> outside \<open>0 .. N_PATHS - 1\<close> keeps its value: the only writes of a
  kernel are \<^verbatim>\<open>d_s[i] = ...\<close> for path indices \<open>i < N_PATHS\<close>. The length of \<open>d_s\<close> is a
  premise because no kernel checks the index of a write: with a shorter output buffer the
  compiled kernels write behind its end. The two buffers are distinct arrays, as in the
  notebook's calls.
\<close>

theorem draw_buffer_unchanged:
  assumes "res = cpu_barrier_option d_s T K B S0 sigma mu r d_normals N_STEPS N_PATHS
      \<or> (prange_schedule N_PATHS sched
          \<and> res = cpu_multicore_barrier_option sched d_s T K B S0 sigma mu r d_normals N_STEPS N_PATHS)
      \<or> (grid_schedule gridDim blockDim usched \<and> 0 < gridDim \<and> 0 < blockDim
          \<and> res = gpu_launch usched gridDim blockDim d_s T K B S0 sigma mu r d_normals N_STEPS N_PATHS)"
    and "N_PATHS \<le> int (length d_s)"
  shows "snd (snd res) = d_normals
       \<and> length (fst (snd res)) = length d_s
       \<and> (\<forall>j. nat N_PATHS \<le> j \<longrightarrow> fst (snd res) ! j = d_s ! j)"
proof -
  have frame: "snd (snd res) = d_normals \<and> length (fst (snd res)) = length d_s
      \<and> (\<forall>j. nat N_PATHS \<le> j \<longrightarrow> fst (snd res) ! j = d_s ! j)"
    if "set is = set (range1 N_PATHS)" and "res = for_paths (store_path g) is (d_s, d_normals)"
    for g "is"
  proof -
    obtain e m' where res: "res = (e, m')" by (cases res)
    with that(2) have "for_paths (store_path g) is (d_s, d_normals) = (e, m')" by simp
    from for_paths_frame [OF this] that(1) show ?thesis
      by (simp add: res range1_def)
  qed
  show ?thesis
  proof (cases "prelude T mu r N_STEPS")
    case (Inl e)
    from kernel_nonreal [OF assms(1) Inl] show ?thesis
      by (auto simp: nonreal_path_store dest: frame)
  next
    case (Inr tmps)
    obtain tmp1 tmp2 tmp3 where p: "prelude T mu r N_STEPS = Inr (tmp1, tmp2, tmp3)"
      using Inr by (cases tmps) auto
    from kernel_real [OF assms(1) p] show ?thesis
      by (auto simp: cpu_path_store dest: frame)
  qed
qed

theorem draw_buffer_unchanged_witness:
  "cpu_barrier_option [0, 7] 1 2 5 4 1 0 0 [0, 3] 2 1 = (None, ([2, 7], [0, 3]))
     \<and> snd (snd (cpu_barrier_option [0, 7] 1 2 5 4 1 0 0 [0, 3] 2 1)) = [0, 3]
     \<and> length (fst (snd (cpu_barrier_option [0, 7] 1 2 5 4 1 0 0 [0, 3] 2 1))) = length [0, 7 :: real]
     \<and> 1 \<le> int (length [0, 7 :: real]) \<and> nat 1 \<le> (1::nat)
     \<and> fst (snd (cpu_barrier_option [0, 7] 1 2 5 4 1 0 0 [0, 3] 2 1)) ! 1 = [0, 7] ! 1
     \<and> prange_schedule 1 [0]
     \<and> snd (snd (cpu_multicore_barrier_option [0] [0, 7] 1 2 5 4 1 0 0 [0, 3] 2 1)) = [0, 3]
     \<and> grid_schedule 1 1 [(0, 0)]
     \<and> snd (snd (gpu_launch [(0, 0)] 1 1 [0, 7] 1 2 5 4 1 0 0 [0, 3] 2 1)) = [0, 3]"
proof -
  have r: "range1 2 = [0, 1]" "range1 1 = [0]" by code_simp+
  have cpu: "cpu_barrier_option [0, 7] 1 2 5 4 1 0 0 [0, 3] 2 1 = (None, ([2, 7], [0, 3]))"
    by (simp add: cpu_barrier_option_def prelude_def truediv_def math_sqrt_def r
        cpu_path_def getitem_def setitem_def)
  have ps: "prange_schedule 1 [0]" by code_simp
  have gs: "grid_schedule 1 1 [(0, 0)]" by code_simp
  have one: "(0::nat) < 1" and n: "nat 1 \<le> (1::nat)"
    and len: "1 \<le> int (length [0, 7 :: real])" by simp_all
  have c: "snd (snd (cpu_barrier_option [0, 7] 1 2 5 4 1 0 0 [0, 3] 2 1)) = [0, 3]
      \<and> length (fst (snd (cpu_barrier_option [0, 7] 1 2 5 4 1 0 0 [0, 3] 2 1))) = length [0, 7 :: real]
      \<and> (\<forall>j. nat 1 \<le> j \<longrightarrow> fst (snd (cpu_barrier_option [0, 7] 1 2 5 4 1 0 0 [0, 3] 2 1)) ! j
            = [0, 7] ! j)"
    by (rule draw_buffer_unchanged [where sched = "[]" and usched = "[]" and gridDim = 0
          and blockDim = 0, OF _ len]) blast
  have m: "snd (snd (cpu_multicore_barrier_option [0] [0, 7] 1 2 5 4 1 0 0 [0, 3] 2 1)) = [0, 3]
      \<and> length (fst (snd (cpu_multicore_barrier_option [0] [0, 7] 1 2 5 4 1 0 0 [0, 3] 2 1)))
          = length [0, 7 :: real]
      \<and> (\<forall>j. nat 1 \<le> j \<longrightarrow>
            fst (snd (cpu_multicore_barrier_option [0] [0, 7] 1 2 5 4 1 0 0 [0, 3] 2 1)) ! j
              = [0, 7] ! j)"
    by (rule draw_buffer_unchanged [where sched = "[0]" and usched = "[]" and gridDim = 0
          and blockDim = 0, OF _ len]) (use ps in blast)
  have g: "snd (snd (gpu_launch [(0, 0)] 1 1 [0, 7] 1 2 5 4 1 0 0 [0, 3] 2 1)) = [0, 3]
      \<and> length (fst (snd (gpu_launch [(0, 0)] 1 1 [0, 7] 1 2 5 4 1 0 0 [0, 3] 2 1)))
          = length [0, 7 :: real]
      \<and> (\<forall>j. nat 1 \<le> j \<longrightarrow>
            fst (snd (gpu_launch [(0, 0)] 1 1 [0, 7] 1 2 5 4 1 0 0 [0, 3] 2 1)) ! j = [0, 7] ! j)"
    by (rule draw_buffer_unchanged [where sched = "[]" and usched = "[(0, 0)]" and gridDim = 1
          and blockDim = 1, OF _ len]) (use gs one in blast)
  from c n have c1: "fst (snd (cpu_barrier_option [0, 7] 1 2 5 4 1 0 0 [0, 3] 2 1)) ! 1 = [0, 7] ! 1"
    by blast
  from cpu c c1 len n ps m gs g show ?thesis by blast
qed

subsection \<open>C10: every array access is in bounds\<close>

text \<open>
  C10. For \<open>N_PATHS \<ge> 1\<close>, \<open>N_STEPS \<ge> 1\<close>, a draw buffer of at least \<open>N_PATHS * N_STEPS\<close>
  elements and an output buffer of at least \<open>N_PATHS\<close> elements, every read
  \<open>d_normals[i + n * N_PATHS]\<close> and every write \<open>d_s[i]\<close> of a path \<open>i < N_PATHS\<close> and a step
  \<open>n < N_STEPS\<close> is in bounds, so that no run ends at an index outside an array (the outcome is never
  \<open>IndexError\<close>); with a maturity \<open>T \<ge> 0\<close> the kernels return.
\<close>

theorem accesses_in_bounds:
  assumes "res = cpu_barrier_option d_s T K B S0 sigma mu r d_normals N_STEPS N_PATHS
      \<or> (prange_schedule N_PATHS sched
          \<and> res = cpu_multicore_barrier_option sched d_s T K B S0 sigma mu r d_normals N_STEPS N_PATHS)
      \<or> (grid_schedule gridDim blockDim usched \<and> 0 < gridDim \<and> 0 < blockDim
          \<and> res = gpu_launch usched gridDim blockDim d_s T K B S0 sigma mu r d_normals N_STEPS N_PATHS)"
    and "1 \<le> N_PATHS" and "1 \<le> N_STEPS"
    and "N_PATHS * N_STEPS \<le> int (length d_normals)"
    and "N_PATHS \<le> int (length d_s)"
  shows "(\<forall>i n. i < nat N_PATHS \<and> n < nat N_STEPS \<longrightarrow>
            getitem d_normals (int i + int n * N_PATHS)
              = Inr (d_normals ! (i + n * nat N_PATHS)))
       \<and> (\<forall>i v. i < nat N_PATHS \<longrightarrow> setitem d_s (int i) v = Inr (d_s[i := v]))
       \<and> fst res \<noteq> Some IndexError
       \<and> (0 \<le> T \<longrightarrow> fst res = None)"
proof -
  let ?m = "(d_s, d_normals)"
  have reads: "getitem d_normals (int i + int n * N_PATHS) = Inr (d_normals ! (i + n * nat N_PATHS))"
    if "i < nat N_PATHS" "n < nat N_STEPS" for i n
    using that assms(4) by (rule getitem_path)
  have writes: "setitem d_s (int i) v = Inr (d_s[i := v])" if "i < nat N_PATHS" for i v
    using that assms(5) by (simp add: setitem_def Let_def)
  have ok: "path_ok (path_value tmp1 tmp2 tmp3 K B S0 sigma N_STEPS N_PATHS) ?m i"
    if "i \<in> set (range1 N_PATHS)" for i tmp1 tmp2 tmp3
  proof -
    from that have i: "i < nat N_PATHS" by (simp add: range1_def)
    have "\<forall>n \<in> set (range1 N_STEPS). \<exists>z. getitem d_normals (int i + int n * N_PATHS) = Inr z"
      using reads [OF i] by (simp add: range1_def)
    from cpu_steps_total [OF this] obtain s a where
      "cpu_steps tmp1 tmp3 sigma B d_normals N_PATHS i (range1 N_STEPS) (S0, 0) = Inr (s, a)"
      by blast
    then show ?thesis
      using i assms(5) by (simp add: path_ok_def path_value_def)
  qed
  have status: "fst res \<noteq> Some IndexError \<and> (0 \<le> T \<longrightarrow> fst res = None)"
  proof (cases "prelude T mu r N_STEPS")
    case (Inl e)
    from prelude_Inl [OF Inl] assms(3) have neg: "T / real_of_int N_STEPS < 0" by auto
    have T: "\<not> 0 \<le> T"
    proof
      assume "0 \<le> T"
      then have "0 \<le> T / real_of_int N_STEPS" using assms(3) by simp
      with neg show False by simp
    qed
    have steps: "range1 N_STEPS \<noteq> []" using assms(3) by (simp add: range1_def)
    from kernel_nonreal [OF assms(1) Inl] assms(3) obtain "is" where
      "res = for_paths (nonreal_path (exp (- r * T)) K N_STEPS) is ?m"
      by auto
    then have "fst res \<noteq> Some IndexError"
      using steps by (simp add: for_paths_nonreal_stops split: list.splits)
    with T show ?thesis by simp
  next
    case (Inr tmps)
    obtain tmp1 tmp2 tmp3 where p: "prelude T mu r N_STEPS = Inr (tmp1, tmp2, tmp3)"
      using Inr by (cases tmps) auto
    from kernel_real [OF assms(1) p] obtain "is" where "is": "set is = set (range1 N_PATHS)"
      and res: "res = for_paths (cpu_path tmp1 tmp2 tmp3 K B S0 sigma N_STEPS N_PATHS) is ?m"
      by blast
    have "\<forall>i \<in> set is. path_ok (path_value tmp1 tmp2 tmp3 K B S0 sigma N_STEPS N_PATHS) ?m i"
      using ok "is" by simp
    from for_paths_ok [OF this] show ?thesis
      by (simp add: res cpu_path_store)
  qed
  from reads writes status show ?thesis by blast
qed

theorem accesses_in_bounds_witness:
  "(1::int) \<le> 1 \<and> (1::int) \<le> 2 \<and> 1 * 2 \<le> int (length [0, 3 :: real])
     \<and> 1 \<le> int (length [0, 7 :: real])
     \<and> prange_schedule 1 [0] \<and> grid_schedule 1 1 [(0, 0)]
     \<and> getitem [0, 3] (int 0 + int 1 * 1) = Inr ([0, 3] ! (0 + 1 * nat 1))
     \<and> setitem [0, 7] (int 0) 9 = Inr ([0, 7][0 := 9])
     \<and> fst (cpu_barrier_option [0, 7] 1 2 5 4 1 0 0 [0, 3] 2 1) = None
     \<and> fst (cpu_multicore_barrier_option [0] [0, 7] 1 2 5 4 1 0 0 [0, 3] 2 1) = None
     \<and> fst (gpu_launch [(0, 0)] 1 1 [0, 7] 1 2 5 4 1 0 0 [0, 3] 2 1) = None"
proof -
  have h2: "(1::int) \<le> 1" and h3: "(1::int) \<le> 2"
    and h4: "1 * 2 \<le> int (length [0, 3 :: real])" and h5: "1 \<le> int (length [0, 7 :: real])"
    by simp_all
  have ps: "prange_schedule 1 [0]" by code_simp
  have gs: "grid_schedule 1 1 [(0, 0)]" by code_simp
  have one: "(0::nat) < 1" and i: "(0::nat) < nat 1" and n: "(1::nat) < nat 2"
    and T: "(0::real) \<le> 1" by simp_all
  note cpu = accesses_in_bounds [where res = "cpu_barrier_option [0, 7] 1 2 5 4 1 0 0 [0, 3] 2 1"
      and sched = "[]" and usched = "[]" and gridDim = 0 and blockDim = 0, OF _ h2 h3 h4 h5]
  note multi = accesses_in_bounds
    [where res = "cpu_multicore_barrier_option [0] [0, 7] 1 2 5 4 1 0 0 [0, 3] 2 1"
      and sched = "[0]" and usched = "[]" and gridDim = 0 and blockDim = 0, OF _ h2 h3 h4 h5]
  note gpu = accesses_in_bounds
    [where res = "gpu_launch [(0, 0)] 1 1 [0, 7] 1 2 5 4 1 0 0 [0, 3] 2 1"
      and sched = "[]" and usched = "[(0, 0)]" and gridDim = 1 and blockDim = 1,
      OF _ h2 h3 h4 h5]
  have c: "(\<forall>i n. i < nat 1 \<and> n < nat 2 \<longrightarrow>
              getitem [0, 3] (int i + int n * 1) = Inr ([0, 3] ! (i + n * nat 1)))
      \<and> (\<forall>i v. i < nat 1 \<longrightarrow> setitem [0, 7] (int i) v = Inr ([0, 7][i := v]))
      \<and> fst (cpu_barrier_option [0, 7] 1 2 5 4 1 0 0 [0, 3] 2 1) \<noteq> Some IndexError
      \<and> ((0::real) \<le> 1 \<longrightarrow> fst (cpu_barrier_option [0, 7] 1 2 5 4 1 0 0 [0, 3] 2 1) = None)"
    by (rule cpu) blast
  have m: "(0::real) \<le> 1 \<longrightarrow>
      fst (cpu_multicore_barrier_option [0] [0, 7] 1 2 5 4 1 0 0 [0, 3] 2 1) = None"
    using multi ps by blast
  have g: "(0::real) \<le> 1 \<longrightarrow> fst (gpu_launch [(0, 0)] 1 1 [0, 7] 1 2 5 4 1 0 0 [0, 3] 2 1) = None"
    using gpu gs one by blast
  from c i n have rd: "getitem [0, 3] (int 0 + int 1 * 1) = Inr ([0, 3] ! (0 + 1 * nat 1))"
    by blast
  from c i have wr: "setitem [0, 7] (int 0) 9 = Inr ([0, 7][0 := 9])" by blast
  from h2 h3 h4 h5 ps gs rd wr c m g T show ?thesis by blast
qed

end
